theory Spec2Isabelle
  imports Complex_Main "HOL-Library.Code_Target_Numeral"
begin

section \<open>Candles and the records of an upstream page\<close>

text \<open>
  \<^verbatim>\<open>src/types/candle.ts\<close> declares \<^verbatim>\<open>Candle\<close> (two numeric times, five decimal
  strings) and \<^verbatim>\<open>CandleWithISO\<close> (the same plus \<^verbatim>\<open>openISO\<close>, \<^verbatim>\<open>closeISO\<close>).
  One record of a page is the array \<^verbatim>\<open>raw\<close> that \<^verbatim>\<open>mapCandle\<close> reads at the positions
  0 to 6; the later positions are never read. The positions are typed as
  \<^verbatim>\<open>Candle\<close> types them: 0 and 6 integer milliseconds, 1 to 5 strings.
  The fields \<^verbatim>\<open>open\<close> and \<^verbatim>\<open>close\<close> carry a prime, as \<open>open\<close> is a constant of HOL.
\<close>

record raw_candle =
  raw0 :: int
  raw1 :: string
  raw2 :: string
  raw3 :: string
  raw4 :: string
  raw5 :: string
  raw6 :: int

record candle =
  openTime :: int
  open' :: string
  high :: string
  low :: string
  close' :: string
  volume :: string
  closeTime :: int
  openISO :: string
  closeISO :: string

section \<open>The built-ins of the language that the code calls\<close>

text \<open>
  \<^verbatim>\<open>new Date(ts).toISOString()\<close> and the conversion of a number inside a template
  literal are built-ins of JavaScript. They are written out here after ECMA-262:
  a time value is an integer of at most 8.64e15 in absolute value, the day number is the
  floor of the time divided by the milliseconds of a day, the calendar is the proleptic
  Gregorian one, and \<^verbatim>\<open>toISOString\<close> throws a \<^verbatim>\<open>RangeError\<close> on an invalid date.
\<close>

datatype js_error = RangeError

definition msPerDay :: int where
  "msPerDay = 86400000"

definition valid_time :: "int \<Rightarrow> bool" where
  "valid_time t \<longleftrightarrow> \<bar>t\<bar> \<le> 8640000000000000"

fun decimal :: "nat \<Rightarrow> string" where
  "decimal n = (if n < 10 then [''0123456789'' ! n]
                else decimal (n div 10) @ [''0123456789'' ! (n mod 10)])"

definition pad :: "nat \<Rightarrow> nat \<Rightarrow> string" where
  "pad w n = replicate (w - length (decimal n)) (CHR ''0'') @ decimal n"

text \<open>
  The year, month and day of a day number counted from 1970-01-01: the day of the
  400-year era that starts on a first of March, the year of the era, the day of the
  year and the month counted from March.
\<close>

definition era :: "int \<Rightarrow> int" where
  "era days = (days + 719468) div 146097"

definition doe :: "int \<Rightarrow> int" where
  "doe days = (days + 719468) mod 146097"

definition yoe :: "int \<Rightarrow> int" where
  "yoe days = (doe days - doe days div 1460 + doe days div 36524 - doe days div 146096) div 365"

definition doy :: "int \<Rightarrow> int" where
  "doy days = doe days - (365 * yoe days + yoe days div 4 - yoe days div 100)"

definition mp :: "int \<Rightarrow> int" where
  "mp days = (5 * doy days + 2) div 153"

definition month_of :: "int \<Rightarrow> int" where
  "month_of days = (if mp days < 10 then mp days + 3 else mp days - 9)"

definition day_of :: "int \<Rightarrow> int" where
  "day_of days = doy days - (153 * mp days + 2) div 5 + 1"

definition year_of :: "int \<Rightarrow> int" where
  "year_of days = yoe days + era days * 400 + (if month_of days \<le> 2 then 1 else 0)"

definition year_string :: "int \<Rightarrow> string" where
  "year_string y =
     (if 0 \<le> y \<and> y \<le> 9999 then pad 4 (nat y)
      else (if y < 0 then ''-'' else ''+'') @ pad 6 (nat \<bar>y\<bar>))"

definition time_of_day :: "int \<Rightarrow> string" where
  "time_of_day r = pad 2 (nat (r div 3600000)) @ '':'' @ pad 2 (nat (r div 60000 mod 60)) @ '':''
                   @ pad 2 (nat (r div 1000 mod 60)) @ ''.'' @ pad 3 (nat (r mod 1000))"

text \<open>The text of a time value, and \<^verbatim>\<open>toISOString\<close>, which throws on any other number.\<close>

definition iso_string :: "int \<Rightarrow> string" where
  "iso_string t =
     year_string (year_of (t div msPerDay)) @ ''-''
     @ pad 2 (nat (month_of (t div msPerDay))) @ ''-''
     @ pad 2 (nat (day_of (t div msPerDay))) @ ''T''
     @ time_of_day (t mod msPerDay) @ ''Z''"

definition toISOString :: "int \<Rightarrow> js_error + string" where
  "toISOString t = (if valid_time t then Inr (iso_string t) else Inl RangeError)"

text \<open>
  \<^verbatim>\<open>`${n}`\<close> for an integral number below 1e21 in absolute value: the decimal digits,
  with a minus sign for a negative number.
\<close>

definition number_to_string :: "int \<Rightarrow> string" where
  "number_to_string n = (if n < 0 then ''-'' @ decimal (nat (- n)) else decimal (nat n))"

section \<open>\<^verbatim>\<open>src/utils/time.ts\<close> and \<^verbatim>\<open>mapCandle\<close>\<close>

definition formatCandleTime :: "int \<Rightarrow> js_error + string" where
  "formatCandleTime ts = toISOString ts"

text \<open>
  \<^verbatim>\<open>mapCandle\<close> builds the object field by field, so the first \<^verbatim>\<open>formatCandleTime\<close>
  that throws ends it.
\<close>

definition mapCandle :: "raw_candle \<Rightarrow> js_error + candle" where
  "mapCandle raw =
     (case formatCandleTime (raw0 raw) of
        Inl e \<Rightarrow> Inl e
      | Inr oiso \<Rightarrow>
          (case formatCandleTime (raw6 raw) of
             Inl e \<Rightarrow> Inl e
           | Inr ciso \<Rightarrow>
               Inr \<lparr>openTime = raw0 raw, open' = raw1 raw, high = raw2 raw, low = raw3 raw,
                    close' = raw4 raw, volume = raw5 raw, closeTime = raw6 raw,
                    openISO = oiso, closeISO = ciso\<rparr>))"

text \<open>\<^verbatim>\<open>rawCandles.map((c) => mapCandle(c))\<close>: left to right, stopping at the first throw.\<close>

fun map_mapCandle :: "raw_candle list \<Rightarrow> js_error + candle list" where
  "map_mapCandle [] = Inr []"
| "map_mapCandle (c # cs) =
     (case mapCandle c of
        Inl e \<Rightarrow> Inl e
      | Inr x \<Rightarrow> (case map_mapCandle cs of Inl e \<Rightarrow> Inl e | Inr xs \<Rightarrow> Inr (x # xs)))"

section \<open>\<^verbatim>\<open>src/utils/file.ts\<close>\<close>

definition header :: string where
  "header = ''openTime,open,high,low,close,volume,closeTime,openISO,closeISO'' @ [CHR 0x0A]"

definition row :: "candle \<Rightarrow> string" where
  "row c = number_to_string (openTime c) @ '','' @ open' c @ '','' @ high c @ '','' @ low c
           @ '','' @ close' c @ '','' @ volume c @ '','' @ number_to_string (closeTime c)
           @ '','' @ openISO c @ '','' @ closeISO c"

text \<open>\<^verbatim>\<open>Array.prototype.join\<close> with the line feed as separator.\<close>

fun join_lines :: "string list \<Rightarrow> string" where
  "join_lines [] = []"
| "join_lines [x] = x"
| "join_lines (x # y # ys) = x @ [CHR 0x0A] @ join_lines (y # ys)"

text \<open>
  The string \<^verbatim>\<open>header + rows\<close> that \<^verbatim>\<open>saveCandlesToFile\<close> hands to
  \<^verbatim>\<open>fs.writeFileSync\<close>.
\<close>

definition file_content :: "candle list \<Rightarrow> string" where
  "file_content candles = header @ join_lines (map row candles)"

section \<open>The validated configuration, \<^verbatim>\<open>env\<close>\<close>

text \<open>
  \<^verbatim>\<open>env\<close> is the data of a successful \<^verbatim>\<open>envSchema.safeParse(process.env)\<close>: two
  integers and four strings.
\<close>

record env =
  SYMBOL :: string
  INTERVAL :: string
  LIMIT :: int
  REQ_DELAY_MS :: int
  START_DATE :: string
  OUTPUT_FILE :: string

text \<open>
  The schema coerces \<^verbatim>\<open>LIMIT\<close> and \<^verbatim>\<open>REQ_DELAY_MS\<close> with \<^verbatim>\<open>Number(...)\<close>; the model
  starts at the coerced number. A number of JavaScript is not-a-number, an infinity or
  a finite value, which is a rational.
\<close>

datatype js_number = NaN | Infinity | NegInfinity | Finite rat

text \<open>
  What \<^verbatim>\<open>process.env\<close> holds under the six keys: a string or \<^verbatim>\<open>undefined\<close>, and for the
  two coerced keys the number that \<^verbatim>\<open>Number\<close> makes of it.
\<close>

record process_env =
  env_SYMBOL :: "string option"
  env_INTERVAL :: "string option"
  env_LIMIT :: js_number
  env_REQ_DELAY_MS :: js_number
  env_START_DATE :: "string option"
  env_OUTPUT_FILE :: "string option"

text \<open>\<^verbatim>\<open>z.string().min(1)\<close>\<close>

definition z_string_min1 :: "string option \<Rightarrow> string option" where
  "z_string_min1 v =
     (case v of None \<Rightarrow> None | Some s \<Rightarrow> if 1 \<le> length s then Some s else None)"

text \<open>
  \<^verbatim>\<open>z.coerce.number().int().positive()\<close>: \<^verbatim>\<open>number()\<close> refuses not-a-number,
  \<^verbatim>\<open>int()\<close> asks for \<^verbatim>\<open>Number.isInteger\<close>, \<^verbatim>\<open>positive()\<close> for a value above 0.
\<close>

definition z_coerce_number_int_positive :: "js_number \<Rightarrow> int option" where
  "z_coerce_number_int_positive v =
     (case v of
        Finite q \<Rightarrow> if of_int \<lfloor>q\<rfloor> = q \<and> 0 < q then Some \<lfloor>q\<rfloor> else None
      | _ \<Rightarrow> None)"

text \<open>
  \<^verbatim>\<open>z.string().datetime()\<close>. The test that the library applies to the string is the
  parameter \<open>datetime\<close>.
\<close>

definition z_string_datetime :: "(string \<Rightarrow> bool) \<Rightarrow> string option \<Rightarrow> string option" where
  "z_string_datetime datetime v =
     (case v of None \<Rightarrow> None | Some s \<Rightarrow> if datetime s then Some s else None)"

text \<open>\<^verbatim>\<open>envSchema.safeParse\<close>: \<open>None\<close> is \<^verbatim>\<open>success: false\<close>.\<close>

definition envSchema_safeParse :: "(string \<Rightarrow> bool) \<Rightarrow> process_env \<Rightarrow> env option" where
  "envSchema_safeParse datetime pe =
     (case z_string_min1 (env_SYMBOL pe) of None \<Rightarrow> None | Some v1 \<Rightarrow>
      case z_string_min1 (env_INTERVAL pe) of None \<Rightarrow> None | Some v2 \<Rightarrow>
      case z_coerce_number_int_positive (env_LIMIT pe) of None \<Rightarrow> None | Some v3 \<Rightarrow>
      case z_coerce_number_int_positive (env_REQ_DELAY_MS pe) of None \<Rightarrow> None | Some v4 \<Rightarrow>
      case z_string_datetime datetime (env_START_DATE pe) of None \<Rightarrow> None | Some v5 \<Rightarrow>
      case z_string_min1 (env_OUTPUT_FILE pe) of None \<Rightarrow> None | Some v6 \<Rightarrow>
        Some \<lparr>SYMBOL = v1, INTERVAL = v2, LIMIT = v3, REQ_DELAY_MS = v4,
              START_DATE = v5, OUTPUT_FILE = v6\<rparr>)"

text \<open>
  A test of the shape \<^verbatim>\<open>YYYY-MM-DDTHH:MM:SSZ\<close>, with an optional fraction of a second,
  to have one concrete \<open>datetime\<close> at hand.
\<close>

definition digits_at :: "string \<Rightarrow> nat list \<Rightarrow> bool" where
  "digits_at s ps = list_all (\<lambda>i. s ! i \<in> set ''0123456789'') ps"

definition utc_datetime :: "string \<Rightarrow> bool" where
  "utc_datetime s \<longleftrightarrow>
     20 \<le> length s \<and> digits_at s [0, 1, 2, 3, 5, 6, 8, 9, 11, 12, 14, 15, 17, 18]
     \<and> s ! 4 = CHR ''-'' \<and> s ! 7 = CHR ''-'' \<and> s ! 10 = CHR ''T''
     \<and> s ! 13 = CHR '':'' \<and> s ! 16 = CHR '':'' \<and> last s = CHR ''Z''
     \<and> (length s = 20
        \<or> (22 \<le> length s \<and> s ! 19 = CHR ''.''
            \<and> list_all (\<lambda>c. c \<in> set ''0123456789'') (butlast (drop 20 s))))"

section \<open>The world around the fetch loop\<close>

text \<open>
  The query of one \<^verbatim>\<open>axios.get\<close>, and what comes back: the call throws, or
  \<^verbatim>\<open>response.data\<close> is a page. The upstream is any function of the number of the
  call (counted from 0) and of the query.
\<close>

record request =
  p_symbol :: string
  p_interval :: string
  p_startTime :: int
  p_limit :: int

datatype response = Throws | Data "raw_candle list"

type_synonym upstream = "nat \<Rightarrow> request \<Rightarrow> response"

text \<open>
  What a run does to the world, in order: a request sent, an error reported with
  \<^verbatim>\<open>console.error\<close>, a delay awaited, the file written. The modular service writes
  below the working directory, the standalone script below its own directory.
  The progress lines of \<^verbatim>\<open>console.log\<close> are left out.
\<close>

datatype base_dir = Cwd | Dirname

datatype event =
    HttpGet request
  | ConsoleError
  | Delay int
  | WriteFile base_dir string string

text \<open>
  \<^verbatim>\<open>saveCandlesToFile(candles, filename)\<close> as an event: the one call of
  \<^verbatim>\<open>fs.writeFileSync\<close>, which is taken to succeed.
\<close>

definition saveCandlesToFile :: "candle list \<Rightarrow> base_dir \<Rightarrow> string \<Rightarrow> event" where
  "saveCandlesToFile candles d filename = WriteFile d filename (file_content candles)"

section \<open>\<^verbatim>\<open>fetchCandles\<close> of \<^verbatim>\<open>src/services/binance.service.ts\<close>\<close>

text \<open>
  The variables of the function, the number of requests sent so far and the events
  so far.
\<close>

record state =
  allCandles :: "candle list"
  startTime :: int
  fetchMore :: bool
  calls :: nat
  trace :: "event list"

text \<open>
  One pass through the body of \<^verbatim>\<open>while (fetchMore)\<close> ends in \<^verbatim>\<open>break\<close> or at its end,
  the end of the \<^verbatim>\<open>try\<close> block or of the \<^verbatim>\<open>catch\<close> block. A throw of \<^verbatim>\<open>axios.get\<close> and
  a throw of \<^verbatim>\<open>mapCandle\<close> land in the same \<^verbatim>\<open>catch\<close>; the mapping throws before
  anything is pushed. The page is not empty where the last candle is read, and the sum
  \<^verbatim>\<open>closeTime + 1\<close> is exact, as a mapped close time is a time value.
\<close>

datatype flow = Break state | Normal state

definition params :: "env \<Rightarrow> state \<Rightarrow> request" where
  "params e s = \<lparr>p_symbol = SYMBOL e, p_interval = INTERVAL e,
                 p_startTime = startTime s, p_limit = LIMIT e\<rparr>"

text \<open>The \<^verbatim>\<open>catch\<close> block.\<close>

definition catch_error :: "state \<Rightarrow> state" where
  "catch_error s = s\<lparr>fetchMore := False, trace := trace s @ [ConsoleError]\<rparr>"

definition loop_body :: "env \<Rightarrow> upstream \<Rightarrow> state \<Rightarrow> flow" where
  "loop_body e up s =
     (let s1 = s\<lparr>calls := Suc (calls s), trace := trace s @ [HttpGet (params e s)]\<rparr>
      in case up (calls s) (params e s) of
           Throws \<Rightarrow> Normal (catch_error s1)
         | Data rawCandles \<Rightarrow>
             if length rawCandles = 0 then Break s1
             else
               (case map_mapCandle rawCandles of
                  Inl err \<Rightarrow> Normal (catch_error s1)
                | Inr candles \<Rightarrow>
                    (let s2 = s1\<lparr>allCandles := allCandles s1 @ candles\<rparr>;
                         s3 = s2\<lparr>startTime := closeTime (candles ! (length candles - 1)) + 1\<rparr>;
                         s4 = (if int (length candles) < LIMIT e
                               then s3\<lparr>fetchMore := False\<rparr> else s3)
                     in Normal (s4\<lparr>trace := trace s4 @ [Delay (REQ_DELAY_MS e)]\<rparr>))))"

text \<open>The loop may run for ever; then the value is \<open>None\<close>.\<close>

partial_function (option) while_fetchMore :: "env \<Rightarrow> upstream \<Rightarrow> state \<Rightarrow> state option" where
  "while_fetchMore e up s =
     (if fetchMore s then
        (case loop_body e up s of
           Break s' \<Rightarrow> Some s'
         | Normal s' \<Rightarrow> while_fetchMore e up s')
      else Some s)"

declare while_fetchMore.simps [code]

text \<open>
  The state before the loop. \<open>getTime\<close> stands for \<^verbatim>\<open>new Date(...).getTime()\<close> on the
  validated \<^verbatim>\<open>START_DATE\<close>.
\<close>

definition initial :: "(string \<Rightarrow> int) \<Rightarrow> env \<Rightarrow> state" where
  "initial getTime e =
     \<lparr>allCandles = [], startTime = getTime (START_DATE e), fetchMore = True,
      calls = 0, trace = []\<rparr>"

text \<open>
  The events of the whole function: those of the loop, then the one call of
  \<^verbatim>\<open>saveCandlesToFile\<close>.
\<close>

definition fetchCandles :: "(string \<Rightarrow> int) \<Rightarrow> env \<Rightarrow> upstream \<Rightarrow> event list option" where
  "fetchCandles getTime e up =
     (case while_fetchMore e up (initial getTime e) of
        None \<Rightarrow> None
      | Some s \<Rightarrow>
          Some (trace s @ [saveCandlesToFile (allCandles s) Cwd (OUTPUT_FILE e)]))"

section \<open>The process: configuration first, then \<^verbatim>\<open>main\<close>\<close>

text \<open>
  Importing the configuration module validates \<^verbatim>\<open>process.env\<close>; on failure it prints two
  lines with \<^verbatim>\<open>console.error\<close> and calls \<^verbatim>\<open>process.exit(1)\<close>. Otherwise \<^verbatim>\<open>main\<close> awaits
  \<^verbatim>\<open>fetchCandles\<close> and the process ends with status 0; nothing in the model of
  \<^verbatim>\<open>fetchCandles\<close> throws, so the \<^verbatim>\<open>catch\<close> of \<^verbatim>\<open>main\<close> has no branch here.
\<close>

record outcome =
  exit_status :: nat
  events :: "event list"

definition process :: "(string \<Rightarrow> bool) \<Rightarrow> (string \<Rightarrow> int) \<Rightarrow> upstream \<Rightarrow> process_env
    \<Rightarrow> outcome option" where
  "process datetime getTime up pe =
     (case envSchema_safeParse datetime pe of
        None \<Rightarrow> Some \<lparr>exit_status = 1, events = [ConsoleError, ConsoleError]\<rparr>
      | Some e \<Rightarrow>
          (case fetchCandles getTime e up of
             None \<Rightarrow> None
           | Some evs \<Rightarrow> Some \<lparr>exit_status = 0, events = evs\<rparr>))"

section \<open>The state at the loop test after some passes\<close>

text \<open>
  \<open>passes e up k s\<close> is the state in which the loop test is reached for the time
  \<open>k + 1\<close> when the loop starts in \<open>s\<close>: \<open>k\<close> passes were made, none of them left by
  \<^verbatim>\<open>break\<close>. It is \<open>None\<close> when the loop ends earlier.
\<close>

fun passes :: "env \<Rightarrow> upstream \<Rightarrow> nat \<Rightarrow> state \<Rightarrow> state option" where
  "passes e up 0 s = Some s"
| "passes e up (Suc k) s =
     (if fetchMore s then
        (case loop_body e up s of Break s' \<Rightarrow> None | Normal s' \<Rightarrow> passes e up k s')
      else None)"

section \<open>The standalone script\<close>








section \<open>Concrete inputs\<close>

text \<open>
  The configuration of the README, the page of one record of the round-trip example with
  the candle that \<^verbatim>\<open>mapCandle\<close> makes of it, and an upstream that answers the first
  request with that page.
\<close>

definition readme_env :: env where
  "readme_env = \<lparr>SYMBOL = ''BTCUSDT'', INTERVAL = ''1m'', LIMIT = 500, REQ_DELAY_MS = 150,
                  START_DATE = ''2024-01-01T00:00:00Z'', OUTPUT_FILE = ''BTCUSDT_1m.csv''\<rparr>"

definition readme_getTime :: "string \<Rightarrow> int" where
  "readme_getTime s = 1704067200000"

definition synthetic_page :: "raw_candle list" where
  "synthetic_page = [\<lparr>raw0 = 1000, raw1 = ''1'', raw2 = ''2'', raw3 = ''0.5'', raw4 = ''1.5'',
                       raw5 = ''10'', raw6 = 1299\<rparr>]"

definition synthetic_candles :: "candle list" where
  "synthetic_candles =
     [\<lparr>openTime = 1000, open' = ''1'', high = ''2'', low = ''0.5'', close' = ''1.5'',
       volume = ''10'', closeTime = 1299, openISO = ''1970-01-01T00:00:01.000Z'',
       closeISO = ''1970-01-01T00:00:01.299Z''\<rparr>]"

definition synthetic_upstream :: upstream where
  "synthetic_upstream n q = (if n = 0 then Data synthetic_page else Data [])"

text \<open>The same configuration with pages of one record.\<close>

definition one_env :: env where
  "one_env = readme_env\<lparr>LIMIT := 1\<rparr>"

text \<open>The state in which the README configuration leaves the pass on the synthetic page.\<close>

definition after_short_page :: state where
  "after_short_page =
     \<lparr>allCandles = synthetic_candles, startTime = 1300, fetchMore = False, calls = 1,
      trace = [HttpGet \<lparr>p_symbol = ''BTCUSDT'', p_interval = ''1m'',
                        p_startTime = 1704067200000, p_limit = 500\<rparr>,
               Delay 150]\<rparr>"

text \<open>
  An upstream that answers the first two requests with one candle of 300 milliseconds
  that opens at the requested \<^verbatim>\<open>startTime\<close>, and every later request with an empty page.
\<close>

definition honouring_upstream :: upstream where
  "honouring_upstream n q =
     (if n < 2 then Data [\<lparr>raw0 = p_startTime q, raw1 = ''1'', raw2 = ''2'', raw3 = ''0.5'',
                            raw4 = ''1.5'', raw5 = ''10'', raw6 = p_startTime q + 299\<rparr>]
      else Data [])"

text \<open>
  Two pages of two records each, the configuration with pages of two records, and an
  upstream that answers the first two requests with these pages and every later request
  with a given response.
\<close>

definition page_a :: "raw_candle list" where
  "page_a = [\<lparr>raw0 = 1000, raw1 = ''1'', raw2 = ''2'', raw3 = ''0.5'', raw4 = ''1.5'',
               raw5 = ''10'', raw6 = 1299\<rparr>,
             \<lparr>raw0 = 1300, raw1 = ''1.5'', raw2 = ''3'', raw3 = ''1'', raw4 = ''2.5'',
               raw5 = ''20'', raw6 = 1599\<rparr>]"

definition page_b :: "raw_candle list" where
  "page_b = [\<lparr>raw0 = 1600, raw1 = ''2.5'', raw2 = ''4'', raw3 = ''2'', raw4 = ''3'',
               raw5 = ''30'', raw6 = 1899\<rparr>,
             \<lparr>raw0 = 1900, raw1 = ''3'', raw2 = ''5'', raw3 = ''2.5'', raw4 = ''4'',
               raw5 = ''40'', raw6 = 2199\<rparr>]"

definition two_env :: env where
  "two_env = readme_env\<lparr>LIMIT := 2\<rparr>"

definition two_pages_then :: "response \<Rightarrow> upstream" where
  "two_pages_then final n q =
     (if n = 0 then Data page_a else if n = 1 then Data page_b else final)"

text \<open>
  The candles that \<^verbatim>\<open>mapCandle\<close> makes of the two pages, the state at the loop test
  after both pages, and the four rows of these candles as the file holds them.
\<close>

definition candles_a :: "candle list" where
  "candles_a =
     [\<lparr>openTime = 1000, open' = ''1'', high = ''2'', low = ''0.5'', close' = ''1.5'',
       volume = ''10'', closeTime = 1299, openISO = ''1970-01-01T00:00:01.000Z'',
       closeISO = ''1970-01-01T00:00:01.299Z''\<rparr>,
      \<lparr>openTime = 1300, open' = ''1.5'', high = ''3'', low = ''1'', close' = ''2.5'',
       volume = ''20'', closeTime = 1599, openISO = ''1970-01-01T00:00:01.300Z'',
       closeISO = ''1970-01-01T00:00:01.599Z''\<rparr>]"

definition candles_b :: "candle list" where
  "candles_b =
     [\<lparr>openTime = 1600, open' = ''2.5'', high = ''4'', low = ''2'', close' = ''3'',
       volume = ''30'', closeTime = 1899, openISO = ''1970-01-01T00:00:01.600Z'',
       closeISO = ''1970-01-01T00:00:01.899Z''\<rparr>,
      \<lparr>openTime = 1900, open' = ''3'', high = ''5'', low = ''2.5'', close' = ''4'',
       volume = ''40'', closeTime = 2199, openISO = ''1970-01-01T00:00:01.900Z'',
       closeISO = ''1970-01-01T00:00:02.199Z''\<rparr>]"

definition after_two_pages :: state where
  "after_two_pages =
     \<lparr>allCandles = candles_a @ candles_b, startTime = 2200, fetchMore = True, calls = 2,
      trace = [HttpGet \<lparr>p_symbol = ''BTCUSDT'', p_interval = ''1m'',
                        p_startTime = 1704067200000, p_limit = 2\<rparr>,
               Delay 150,
               HttpGet \<lparr>p_symbol = ''BTCUSDT'', p_interval = ''1m'', p_startTime = 1600,
                        p_limit = 2\<rparr>,
               Delay 150]\<rparr>"

definition four_rows :: string where
  "four_rows =
     ''1000,1,2,0.5,1.5,10,1299,1970-01-01T00:00:01.000Z,1970-01-01T00:00:01.299Z''
     @ [CHR 0x0A]
     @ ''1300,1.5,3,1,2.5,20,1599,1970-01-01T00:00:01.300Z,1970-01-01T00:00:01.599Z''
     @ [CHR 0x0A]
     @ ''1600,2.5,4,2,3,30,1899,1970-01-01T00:00:01.600Z,1970-01-01T00:00:01.899Z''
     @ [CHR 0x0A]
     @ ''1900,3,5,2.5,4,40,2199,1970-01-01T00:00:01.900Z,1970-01-01T00:00:02.199Z''"


text \<open>
  The environment of the README before validation, once with a delay of 0 and once with
  a start date that is no date.
\<close>

definition zero_delay_env :: process_env where
  "zero_delay_env =
     \<lparr>env_SYMBOL = Some ''BTCUSDT'', env_INTERVAL = Some ''1m'', env_LIMIT = Finite 500,
      env_REQ_DELAY_MS = Finite 0, env_START_DATE = Some ''2024-01-01T00:00:00Z'',
      env_OUTPUT_FILE = Some ''BTCUSDT_1m.csv''\<rparr>"

definition bad_date_env :: process_env where
  "bad_date_env =
     \<lparr>env_SYMBOL = Some ''BTCUSDT'', env_INTERVAL = Some ''1m'', env_LIMIT = Finite 500,
      env_REQ_DELAY_MS = Finite 150, env_START_DATE = Some ''yesterday'',
      env_OUTPUT_FILE = Some ''BTCUSDT_1m.csv''\<rparr>"

section \<open>Auxiliary notions of the proofs\<close>

text \<open>The state in which a pass ends, whichever way it ends.\<close>

fun state_of :: "flow \<Rightarrow> state" where
  "state_of (Break s) = s"
| "state_of (Normal s) = s"

text \<open>The requests among a list of events, in order.\<close>

fun requests :: "event list \<Rightarrow> request list" where
  "requests [] = []"
| "requests (HttpGet q # evs) = q # requests evs"
| "requests (ev # evs) = requests evs"

text \<open>
  The upstream honoured the requests of a list of events when every page it returned to
  one of them (the request number \<open>n\<close>, counted from 0, went to \<open>up n\<close>) is strictly
  increasing in the open time, and every record of the page opens no earlier than the
  requested \<^verbatim>\<open>startTime\<close> and closes no earlier than it opens.
\<close>

definition honoured :: "upstream \<Rightarrow> event list \<Rightarrow> bool" where
  "honoured up evs \<longleftrightarrow>
     (\<forall>n<length (requests evs). \<forall>p. up n (requests evs ! n) = Data p \<longrightarrow>
        sorted_wrt (<) (map raw0 p)
        \<and> (\<forall>r\<in>set p. p_startTime (requests evs ! n) \<le> raw0 r \<and> raw0 r \<le> raw6 r))"


text \<open>
  The invariant of the loop behind the order of the candles: the open times increase
  strictly, and all of them lie below the cursor.
\<close>

definition ordered_below_cursor :: "state \<Rightarrow> bool" where
  "ordered_below_cursor s \<longleftrightarrow>
     sorted_wrt (<) (map openTime (allCandles s))
     \<and> (\<forall>c\<in>set (allCandles s). openTime c < startTime s)"

declare decimal.simps [simp del]

section \<open>Facts about one pass of the loop\<close>

lemma map_mapCandle_Inr:
  "map_mapCandle p = Inr cs \<Longrightarrow>
     length cs = length p \<and> map openTime cs = map raw0 p \<and> map closeTime cs = map raw6 p"
proof (induction p arbitrary: cs)
  case Nil
  then show ?case by simp
next
  case (Cons r p)
  then show ?case
    by (auto simp: mapCandle_def split: sum.splits)
qed

lemma loop_body_Throws:
  "up (calls s) (params e s) = Throws \<Longrightarrow>
   loop_body e up s =
     Normal (s\<lparr>fetchMore := False, calls := Suc (calls s),
              trace := trace s @ [HttpGet (params e s), ConsoleError]\<rparr>)"
  by (simp add: loop_body_def catch_error_def)

lemma loop_body_empty:
  "up (calls s) (params e s) = Data [] \<Longrightarrow>
   loop_body e up s =
     Break (s\<lparr>calls := Suc (calls s), trace := trace s @ [HttpGet (params e s)]\<rparr>)"
  by (simp add: loop_body_def)

lemma loop_body_unmapped:
  "up (calls s) (params e s) = Data p \<Longrightarrow> p \<noteq> [] \<Longrightarrow> map_mapCandle p = Inl err \<Longrightarrow>
   loop_body e up s =
     Normal (s\<lparr>fetchMore := False, calls := Suc (calls s),
              trace := trace s @ [HttpGet (params e s), ConsoleError]\<rparr>)"
  by (simp add: loop_body_def catch_error_def)

lemma loop_body_page:
  "up (calls s) (params e s) = Data p \<Longrightarrow> p \<noteq> [] \<Longrightarrow> map_mapCandle p = Inr cs \<Longrightarrow>
   loop_body e up s =
     Normal (s\<lparr>allCandles := allCandles s @ cs,
              startTime := closeTime (last cs) + 1,
              fetchMore := (fetchMore s \<and> \<not> int (length cs) < LIMIT e),
              calls := Suc (calls s),
              trace := trace s @ [HttpGet (params e s), Delay (REQ_DELAY_MS e)]\<rparr>)"
  apply (frule map_mapCandle_Inr)
  apply (cases "cs = []")
   apply simp
  apply (simp add: loop_body_def Let_def last_conv_nth)
  done

lemma while_stop: "\<not> fetchMore s \<Longrightarrow> while_fetchMore e up s = Some s"
  by (subst while_fetchMore.simps) simp

lemma while_Break:
  "fetchMore s \<Longrightarrow> loop_body e up s = Break s' \<Longrightarrow> while_fetchMore e up s = Some s'"
  by (subst while_fetchMore.simps) simp

lemma while_Normal:
  "fetchMore s \<Longrightarrow> loop_body e up s = Normal s' \<Longrightarrow>
   while_fetchMore e up s = while_fetchMore e up s'"
  by (subst while_fetchMore.simps) simp

lemma while_passes:
  "passes e up k s = Some s' \<Longrightarrow> while_fetchMore e up s = while_fetchMore e up s'"
proof (induction k arbitrary: s)
  case 0
  then show ?case by simp
next
  case (Suc k)
  from Suc.prems have fm: "fetchMore s"
    by (simp split: if_splits)
  from Suc.prems fm obtain s1 where b: "loop_body e up s = Normal s1"
    and p: "passes e up k s1 = Some s'"
    by (auto split: flow.splits)
  from while_Normal [OF fm b] Suc.IH [OF p] show ?case by simp
qed

section \<open>Facts about the loop\<close>

lemma loop_body_calls: "loop_body e up s = Normal s' \<Longrightarrow> calls s' = Suc (calls s)"
  by (auto simp: loop_body_def catch_error_def Let_def
      split: response.splits sum.splits if_splits)

lemma passes_calls: "passes e up k s = Some s' \<Longrightarrow> calls s' = calls s + k"
proof (induction k arbitrary: s)
  case 0
  then show ?case by simp
next
  case (Suc k)
  from Suc.prems obtain s1 where b: "loop_body e up s = Normal s1"
    and p: "passes e up k s1 = Some s'"
    by (auto split: if_splits flow.splits)
  from loop_body_calls [OF b] Suc.IH [OF p] show ?case by simp
qed

text \<open>
  Partial correctness of the loop: what every pass preserves holds when the loop ends.
\<close>

lemma while_invariant:
  assumes w: "while_fetchMore e up s = Some s'" and i: "I s"
    and step: "\<And>s s'. I s \<Longrightarrow> fetchMore s \<Longrightarrow>
                 loop_body e up s = Normal s' \<or> loop_body e up s = Break s' \<Longrightarrow> I s'"
  shows "I s'"
proof -
  have "e = e \<and> up = up \<longrightarrow> I s \<longrightarrow> I s'"
  proof (rule while_fetchMore.raw_induct
      [where P = "\<lambda>e' up' s s'. e' = e \<and> up' = up \<longrightarrow> I s \<longrightarrow> I s'", OF _ w])
    fix f e' up' s r
    assume IH: "\<And>e' up' s r. f e' up' s = Some r \<Longrightarrow> e' = e \<and> up' = up \<longrightarrow> I s \<longrightarrow> I r"
      and eq: "(if fetchMore s then
                  (case loop_body e' up' s of Break s' \<Rightarrow> Some s' | Normal s' \<Rightarrow> f e' up' s')
                else Some s) = Some r"
    show "e' = e \<and> up' = up \<longrightarrow> I s \<longrightarrow> I r"
    proof (intro impI, elim conjE)
      assume e: "e' = e" and u: "up' = up" and inv: "I s"
      show "I r"
      proof (cases "fetchMore s")
        case False
        with eq inv show ?thesis by simp
      next
        case True
        show ?thesis
        proof (cases "loop_body e up s")
          case (Break s1)
          with eq True e u have "r = s1" by simp
          with step [OF inv True] Break show ?thesis by simp
        next
          case (Normal s1)
          with eq True e u have "f e up s1 = Some r" by simp
          moreover from step [OF inv True] Normal have "I s1" by simp
          ultimately show ?thesis using IH by blast
        qed
      qed
    qed
  qed
  with i show ?thesis by simp
qed

lemma mapCandle_Inr:
  "mapCandle r = Inr c \<Longrightarrow>
     openTime c = raw0 r \<and> closeTime c = raw6 r \<and> valid_time (raw0 r) \<and> valid_time (raw6 r)"
  by (auto simp: mapCandle_def formatCandleTime_def toISOString_def split: sum.splits if_splits)

lemma map_mapCandle_set:
  "map_mapCandle p = Inr cs \<Longrightarrow> c \<in> set cs \<Longrightarrow> \<exists>r\<in>set p. mapCandle r = Inr c"
proof (induction p arbitrary: cs)
  case Nil
  then show ?case by simp
next
  case (Cons r p)
  then show ?case
    by (auto split: sum.splits)
qed

lemma strictly_sorted_le_last:
  fixes xs :: "int list"
  shows "sorted_wrt (<) xs \<Longrightarrow> x \<in> set xs \<Longrightarrow> x \<le> last xs"
proof (induction xs)
  case Nil
  then show ?case by simp
next
  case (Cons a xs)
  then show ?case
    by (cases "xs = []") (auto simp: order.strict_implies_order dest: last_in_set)
qed

section \<open>Facts about the order of the open times\<close>

lemma ordered_below_cursor_step:
  assumes h: "\<forall>p. up (calls s) (params e s) = Data p \<longrightarrow>
        sorted_wrt (<) (map raw0 p)
        \<and> (\<forall>r\<in>set p. p_startTime (params e s) \<le> raw0 r \<and> raw0 r \<le> raw6 r)"
    and i: "ordered_below_cursor s"
    and b: "loop_body e up s = Normal s' \<or> loop_body e up s = Break s'"
  shows "ordered_below_cursor s'"
proof (cases "up (calls s) (params e s)")
  case Throws
  from loop_body_Throws [of up s e, OF Throws] b i show ?thesis
    by (auto simp: ordered_below_cursor_def)
next
  case (Data p)
  show ?thesis
  proof (cases "p = []")
    case True
    with Data have "up (calls s) (params e s) = Data []" by simp
    from loop_body_empty [of up s e, OF this] b i show ?thesis
      by (auto simp: ordered_below_cursor_def)
  next
    case ne: False
    show ?thesis
    proof (cases "map_mapCandle p")
      case (Inl err)
      from loop_body_unmapped [of up s e p err, OF Data ne Inl] b i show ?thesis
        by (auto simp: ordered_below_cursor_def)
    next
      case (Inr cs)
      from loop_body_page [of up s e p cs, OF Data ne Inr] b
      have a: "allCandles s' = allCandles s @ cs" and st: "startTime s' = closeTime (last cs) + 1"
        by auto
      from h Data have "sorted_wrt (<) (map raw0 p)
          \<and> (\<forall>r\<in>set p. p_startTime (params e s) \<le> raw0 r \<and> raw0 r \<le> raw6 r)"
        by blast
      then have so: "sorted_wrt (<) (map raw0 p)"
        and bd: "\<forall>r\<in>set p. startTime s \<le> raw0 r \<and> raw0 r \<le> raw6 r"
        by (simp_all add: params_def)
      from map_mapCandle_Inr [OF Inr] have mo: "map openTime cs = map raw0 p"
        and len: "length cs = length p" by simp_all
      from len ne have cne: "cs \<noteq> []" by auto
      have each: "startTime s \<le> openTime c \<and> openTime c \<le> closeTime c" if "c \<in> set cs" for c
      proof -
        from map_mapCandle_set [OF Inr that] obtain r where "r \<in> set p" "mapCandle r = Inr c"
          by blast
        with bd mapCandle_Inr [of r c] show ?thesis by auto
      qed
      from so mo have sc: "sorted_wrt (<) (map openTime cs)" by simp
      have le_last: "openTime c \<le> closeTime (last cs)" if "c \<in> set cs" for c
      proof -
        from that have "openTime c \<in> set (map openTime cs)" by simp
        from strictly_sorted_le_last [OF sc this] cne have "openTime c \<le> openTime (last cs)"
          by (simp add: last_map)
        moreover from cne each [of "last cs"] have "openTime (last cs) \<le> closeTime (last cs)"
          by simp
        ultimately show ?thesis by simp
      qed
      from i have i1: "sorted_wrt (<) (map openTime (allCandles s))"
        and i2: "\<forall>c\<in>set (allCandles s). openTime c < startTime s"
        by (simp_all add: ordered_below_cursor_def)
      have "sorted_wrt (<) (map openTime (allCandles s'))"
        using i1 i2 sc each unfolding a by (fastforce simp: sorted_wrt_append)
      moreover have "\<forall>c\<in>set (allCandles s'). openTime c < startTime s'"
      proof
        fix c assume "c \<in> set (allCandles s')"
        then consider "c \<in> set (allCandles s)" | "c \<in> set cs" unfolding a by auto
        then show "openTime c < startTime s'"
        proof cases
          case 1
          with i2 have "openTime c < startTime s" by simp
          also from cne each [of "last cs"] have "startTime s \<le> openTime (last cs)" by simp
          also from cne le_last [of "last cs"] have "openTime (last cs) \<le> closeTime (last cs)"
            by simp
          finally show ?thesis unfolding st by simp
        next
          case 2
          from le_last [OF 2] show ?thesis unfolding st by simp
        qed
      qed
      ultimately show ?thesis by (simp add: ordered_below_cursor_def)
    qed
  qed
qed


lemma requests_append: "requests (evs @ evs') = requests evs @ requests evs'"
  by (induction evs rule: requests.induct) simp_all

lemma loop_body_requests:
  assumes "loop_body e up s = Normal s' \<or> loop_body e up s = Break s'"
  shows "requests (trace s') = requests (trace s) @ [params e s] \<and> calls s' = Suc (calls s)"
  using assms
  by (auto simp: loop_body_def catch_error_def Let_def requests_append
      split: response.splits sum.splits if_splits)

text \<open>
  The invariant with the record of the requests: the calls are counted by the requests
  of the trace, and the order holds as far as the upstream honoured them.
\<close>

lemma honoured_step:
  assumes j: "calls s = length (requests (trace s))
              \<and> (honoured up (trace s) \<longrightarrow> ordered_below_cursor s)"
    and b: "loop_body e up s = Normal s' \<or> loop_body e up s = Break s'"
  shows "calls s' = length (requests (trace s'))
         \<and> (honoured up (trace s') \<longrightarrow> ordered_below_cursor s')"
proof -
  from loop_body_requests [OF b]
  have r: "requests (trace s') = requests (trace s) @ [params e s]"
    and c: "calls s' = Suc (calls s)"
    by simp_all
  from j have cs: "calls s = length (requests (trace s))" by simp
  have "ordered_below_cursor s'" if h: "honoured up (trace s')"
  proof -
    have "honoured up (trace s)"
      unfolding honoured_def
    proof (intro allI impI)
      fix n p
      assume n: "n < length (requests (trace s))"
        and d: "up n (requests (trace s) ! n) = Data p"
      from n have "requests (trace s') ! n = requests (trace s) ! n"
        by (simp add: r nth_append)
      moreover from n have "n < length (requests (trace s'))"
        by (simp add: r)
      ultimately show "sorted_wrt (<) (map raw0 p)
        \<and> (\<forall>r\<in>set p. p_startTime (requests (trace s) ! n) \<le> raw0 r \<and> raw0 r \<le> raw6 r)"
        using h d unfolding honoured_def by metis
    qed
    with j have o: "ordered_below_cursor s" by simp
    have l: "\<forall>p. up (calls s) (params e s) = Data p \<longrightarrow>
        sorted_wrt (<) (map raw0 p)
        \<and> (\<forall>r\<in>set p. p_startTime (params e s) \<le> raw0 r \<and> raw0 r \<le> raw6 r)"
    proof (intro allI impI)
      fix p
      assume d: "up (calls s) (params e s) = Data p"
      have "requests (trace s') ! calls s = params e s"
        by (simp add: r cs)
      moreover have "calls s < length (requests (trace s'))"
        by (simp add: r cs)
      ultimately show "sorted_wrt (<) (map raw0 p)
        \<and> (\<forall>r\<in>set p. p_startTime (params e s) \<le> raw0 r \<and> raw0 r \<le> raw6 r)"
        using h d unfolding honoured_def by metis
    qed
    from l o b show ?thesis by (rule ordered_below_cursor_step)
  qed
  with r c cs show ?thesis by simp
qed

section \<open>Facts about the mapping and the file\<close>

text \<open>
  \<^verbatim>\<open>mapCandle\<close> succeeds exactly on time values, and then the candle carries the seven
  fields of the record and the texts of its two times.
\<close>

lemma mapCandle_valid:
  "valid_time (raw0 r) \<Longrightarrow> valid_time (raw6 r) \<Longrightarrow> mapCandle r = Inr ((\<lambda>r. \<lparr>openTime = raw0 r, open' = raw1 r, high = raw2 r, low = raw3 r,
                   close' = raw4 r, volume = raw5 r, closeTime = raw6 r,
                   openISO = iso_string (raw0 r), closeISO = iso_string (raw6 r)\<rparr>) r)"
  by (simp add: mapCandle_def formatCandleTime_def toISOString_def)

lemma map_mapCandle_valid:
  "\<forall>r\<in>set p. valid_time (raw0 r) \<and> valid_time (raw6 r) \<Longrightarrow>
   map_mapCandle p = Inr (map (\<lambda>r. \<lparr>openTime = raw0 r, open' = raw1 r, high = raw2 r, low = raw3 r,
                   close' = raw4 r, volume = raw5 r, closeTime = raw6 r,
                   openISO = iso_string (raw0 r), closeISO = iso_string (raw6 r)\<rparr>) p)"
  by (induction p) (simp_all add: mapCandle_valid)

lemma map_mapCandle_map:
  "map_mapCandle p = Inr cs \<Longrightarrow> cs = map (\<lambda>r. \<lparr>openTime = raw0 r, open' = raw1 r, high = raw2 r, low = raw3 r,
                   close' = raw4 r, volume = raw5 r, closeTime = raw6 r,
                   openISO = iso_string (raw0 r), closeISO = iso_string (raw6 r)\<rparr>) p"
proof (induction p arbitrary: cs)
  case Nil
  then show ?case by simp
next
  case (Cons r p)
  then show ?case
    by (auto simp: mapCandle_def formatCandleTime_def toISOString_def
        split: sum.splits if_splits)
qed

lemma join_lines_concat: "join_lines (x # xs) = x @ concat (map ((#) (CHR 0x0A)) xs)"
  by (induction xs arbitrary: x) simp_all

lemma row_eq: "row = (\<lambda>c. number_to_string (openTime c) @ '','' @ open' c @ '','' @ high c @ '',''
                   @ low c @ '','' @ close' c @ '','' @ volume c @ '',''
                   @ number_to_string (closeTime c) @ '','' @ openISO c @ '',''
                   @ closeISO c)"
  by (rule ext) (simp add: row_def)

lemma file_content_rows:
  "file_content cs =
     ''openTime,open,high,low,close,volume,closeTime,openISO,closeISO'' @ [CHR 0x0A]
     @ (case map (\<lambda>c. number_to_string (openTime c) @ '','' @ open' c @ '','' @ high c @ '',''
                   @ low c @ '','' @ close' c @ '','' @ volume c @ '',''
                   @ number_to_string (closeTime c) @ '','' @ openISO c @ '',''
                   @ closeISO c) cs of
                 [] \<Rightarrow> []
               | x # xs \<Rightarrow> x @ concat (map ((#) (CHR 0x0A)) xs))"
  by (cases cs) (simp_all add: file_content_def header_def join_lines_concat row_eq)

text \<open>
  A pass after which the loop goes on received a page, and appended the candles of its
  records.
\<close>

lemma loop_body_continues:
  assumes "loop_body e up s = Normal s'" and "fetchMore s'"
  shows "\<exists>p. up (calls s) (params e s) = Data p
           \<and> allCandles s' = allCandles s @ map (\<lambda>r. \<lparr>openTime = raw0 r, open' = raw1 r, high = raw2 r, low = raw3 r,
                   close' = raw4 r, volume = raw5 r, closeTime = raw6 r,
                   openISO = iso_string (raw0 r), closeISO = iso_string (raw6 r)\<rparr>) p"
proof (cases "up (calls s) (params e s)")
  case Throws
  from loop_body_Throws [of up s e, OF Throws] assms show ?thesis by auto
next
  case (Data p)
  show ?thesis
  proof (cases "p = []")
    case True
    with Data have "up (calls s) (params e s) = Data []" by simp
    from loop_body_empty [of up s e, OF this] assms show ?thesis by simp
  next
    case ne: False
    show ?thesis
    proof (cases "map_mapCandle p")
      case (Inl err)
      from loop_body_unmapped [of up s e p err, OF Data ne Inl] assms show ?thesis by auto
    next
      case (Inr cs)
      from loop_body_page [of up s e p cs, OF Data ne Inr] assms(1)
      have "allCandles s' = allCandles s @ cs" by auto
      with map_mapCandle_map [OF Inr] Data show ?thesis by simp
    qed
  qed
qed

lemma passes_fetchMore: "passes e up k s0 = Some s \<Longrightarrow> fetchMore s \<Longrightarrow> fetchMore s0"
  by (cases k) (simp_all split: if_splits)

text \<open>
  When the loop test is reached after \<open>k\<close> passes with \<^verbatim>\<open>fetchMore\<close> still set, each of
  the passes received a page, in answer to the request of the state it started in, and
  the accumulated candles grew by the candles of the records of these pages, in order.
\<close>

lemma passes_pages:
  "passes e up k s0 = Some s \<Longrightarrow> fetchMore s \<Longrightarrow>
   \<exists>pages. length pages = k
     \<and> (\<forall>i<k. \<exists>si. passes e up i s0 = Some si
                    \<and> up (calls si) (params e si) = Data (pages ! i))
     \<and> allCandles s = allCandles s0 @ map (\<lambda>r. \<lparr>openTime = raw0 r, open' = raw1 r, high = raw2 r, low = raw3 r,
                   close' = raw4 r, volume = raw5 r, closeTime = raw6 r,
                   openISO = iso_string (raw0 r), closeISO = iso_string (raw6 r)\<rparr>) (concat pages)"
proof (induction k arbitrary: s0)
  case 0
  then show ?case by simp
next
  case (Suc k)
  from Suc.prems(1) have fm: "fetchMore s0"
    by (simp split: if_splits)
  from Suc.prems(1) fm obtain s1 where b: "loop_body e up s0 = Normal s1"
    and p: "passes e up k s1 = Some s"
    by (auto split: flow.splits)
  from passes_fetchMore [OF p Suc.prems(2)] have fm1: "fetchMore s1" .
  from loop_body_continues [OF b fm1] obtain pg
    where r: "up (calls s0) (params e s0) = Data pg"
      and a: "allCandles s1 = allCandles s0 @ map (\<lambda>r. \<lparr>openTime = raw0 r, open' = raw1 r, high = raw2 r, low = raw3 r,
                   close' = raw4 r, volume = raw5 r, closeTime = raw6 r,
                   openISO = iso_string (raw0 r), closeISO = iso_string (raw6 r)\<rparr>) pg"
    by blast
  from Suc.IH [OF p Suc.prems(2)] obtain pages where l: "length pages = k"
    and each: "\<forall>i<k. \<exists>si. passes e up i s1 = Some si
                    \<and> up (calls si) (params e si) = Data (pages ! i)"
    and acc: "allCandles s = allCandles s1 @ map (\<lambda>r. \<lparr>openTime = raw0 r, open' = raw1 r, high = raw2 r, low = raw3 r,
                   close' = raw4 r, volume = raw5 r, closeTime = raw6 r,
                   openISO = iso_string (raw0 r), closeISO = iso_string (raw6 r)\<rparr>) (concat pages)"
    by blast
  have "\<exists>si. passes e up i s0 = Some si
          \<and> up (calls si) (params e si) = Data ((pg # pages) ! i)" if "i < Suc k" for i
  proof (cases i)
    case 0
    with r show ?thesis by simp
  next
    case (Suc j)
    with that have "j < k" by simp
    with each obtain sj where "passes e up j s1 = Some sj"
      and "up (calls sj) (params e sj) = Data (pages ! j)"
      by blast
    with Suc fm b show ?thesis by simp
  qed
  moreover have "length (pg # pages) = Suc k"
    using l by simp
  moreover have "allCandles s = allCandles s0 @ map (\<lambda>r. \<lparr>openTime = raw0 r, open' = raw1 r, high = raw2 r, low = raw3 r,
                   close' = raw4 r, volume = raw5 r, closeTime = raw6 r,
                   openISO = iso_string (raw0 r), closeISO = iso_string (raw6 r)\<rparr>) (concat (pg # pages))"
    using a acc by simp
  ultimately show ?case by blast
qed

section \<open>Facts about the standalone script\<close>











section \<open>Facts about the validation\<close>

lemma z_coerce_number_int_positive_Some:
  "z_coerce_number_int_positive v = Some n \<longleftrightarrow> 0 < n \<and> v = Finite (of_int n)"
  by (cases v) (auto simp: z_coerce_number_int_positive_def)

lemma z_string_min1_None: "z_string_min1 v = None \<longleftrightarrow> v = None \<or> v = Some []"
  by (cases v) (auto simp: z_string_min1_def Suc_le_eq)

lemma z_string_datetime_None:
  "z_string_datetime datetime v = None \<longleftrightarrow> (\<forall>s. v = Some s \<longrightarrow> \<not> datetime s)"
  by (cases v) (auto simp: z_string_datetime_def)

lemma process_invalid:
  "envSchema_safeParse datetime pe = None \<Longrightarrow>
   process datetime getTime up pe = Some \<lparr>exit_status = 1, events = [ConsoleError, ConsoleError]\<rparr>"
  by (simp add: process_def)

lemma safeParse_None:
  "envSchema_safeParse datetime pe = None \<longleftrightarrow>
     z_string_min1 (env_SYMBOL pe) = None \<or> z_string_min1 (env_INTERVAL pe) = None
     \<or> z_coerce_number_int_positive (env_LIMIT pe) = None
     \<or> z_coerce_number_int_positive (env_REQ_DELAY_MS pe) = None
     \<or> z_string_datetime datetime (env_START_DATE pe) = None
     \<or> z_string_min1 (env_OUTPUT_FILE pe) = None"
  by (auto simp: envSchema_safeParse_def split: option.splits)

section \<open>Facts about the concrete inputs\<close>

text \<open>Padding with a width given as a numeral, one character at a time.\<close>

lemma replicate_numeral_step: "replicate (numeral k) c = c # replicate (numeral k - 1) c"
proof -
  obtain m where m: "numeral k = Suc m"
    using numeral_eq_Suc by blast
  show ?thesis unfolding m by simp
qed

lemmas date_defs = era_def doe_def yoe_def doy_def mp_def month_of_def day_of_def year_of_def

text \<open>The calendar dates of the four days on which the times of the concrete inputs lie.\<close>

lemma day_0: "year_of 0 = 1970" "month_of 0 = 1" "day_of 0 = 1"
  by (simp_all add: date_defs)

lemma day_19723: "year_of 19723 = 2024" "month_of 19723 = 1" "day_of 19723 = 1"
  by (simp_all add: date_defs)

lemma day_99999999:
  "year_of 99999999 = 275760" "month_of 99999999 = 9" "day_of 99999999 = 12"
  by (simp_all add: date_defs)

lemma day_100000000:
  "year_of 100000000 = 275760" "month_of 100000000 = 9" "day_of 100000000 = 13"
  by (simp_all add: date_defs)

lemmas iso_defs = toISOString_def iso_string_def valid_time_def msPerDay_def
  day_0 day_19723 day_99999999 day_100000000
  year_string_def time_of_day_def pad_def decimal.simps replicate_numeral_step

lemma synthetic_page_maps: "map_mapCandle synthetic_page = Inr synthetic_candles"
  by (simp add: synthetic_page_def synthetic_candles_def mapCandle_def formatCandleTime_def
      iso_defs)


lemma synthetic_first_response:
  "synthetic_upstream (calls (initial readme_getTime readme_env))
     (params readme_env (initial readme_getTime readme_env)) = Data synthetic_page"
  by (simp add: synthetic_upstream_def initial_def)

lemma synthetic_page_not_empty: "synthetic_page \<noteq> []"
  by (simp add: synthetic_page_def)

lemma readme_first_pass:
  "loop_body readme_env synthetic_upstream (initial readme_getTime readme_env)
     = Normal after_short_page"
proof -
  let ?s = "initial readme_getTime readme_env"
  have "loop_body readme_env synthetic_upstream ?s =
      Normal (?s\<lparr>allCandles := allCandles ?s @ synthetic_candles,
              startTime := closeTime (last synthetic_candles) + 1,
              fetchMore := (fetchMore ?s \<and> \<not> int (length synthetic_candles) < LIMIT readme_env),
              calls := Suc (calls ?s),
              trace := trace ?s @ [HttpGet (params readme_env ?s),
                                   Delay (REQ_DELAY_MS readme_env)]\<rparr>)"
    using synthetic_first_response synthetic_page_not_empty synthetic_page_maps
    by (rule loop_body_page)
  then show ?thesis
    by (simp add: after_short_page_def initial_def params_def readme_env_def
        readme_getTime_def synthetic_candles_def)
qed

lemma page_a_maps: "map_mapCandle page_a = Inr candles_a"
  by (simp add: page_a_def candles_a_def mapCandle_def formatCandleTime_def iso_defs)

lemma page_a_valid: "list_all (\<lambda>r. valid_time (raw0 r) \<and> valid_time (raw6 r)) page_a"
  by (simp add: page_a_def valid_time_def)

lemma two_pages_passes:
  "passes two_env (two_pages_then final) 2 (initial readme_getTime two_env) = Some after_two_pages"
  by (simp add: numeral_2_eq_2 loop_body_def catch_error_def params_def initial_def
      two_env_def readme_env_def readme_getTime_def two_pages_then_def after_two_pages_def
      page_a_def page_b_def candles_a_def candles_b_def mapCandle_def formatCandleTime_def
      iso_defs)

lemma four_rows_content: "file_content (candles_a @ candles_b) = header @ four_rows"
  by (simp add: file_content_def candles_a_def candles_b_def row_def number_to_string_def
      decimal.simps four_rows_def)

lemma readme_start_date: "toISOString (readme_getTime (START_DATE readme_env))
    = Inr ''2024-01-01T00:00:00.000Z''"
  by (simp add: readme_getTime_def iso_defs)

lemma utc_datetime_readme: "utc_datetime ''2024-01-01T00:00:00Z''"
  by (simp add: utc_datetime_def digits_at_def)

lemma honouring_run:
  "\<exists>s. while_fetchMore one_env honouring_upstream (initial readme_getTime one_env) = Some s
       \<and> map openTime (allCandles s) = [1704067200000, 1704067200300]"
  by (simp add: while_fetchMore.simps loop_body_def catch_error_def params_def initial_def
      one_env_def readme_env_def readme_getTime_def honouring_upstream_def
      mapCandle_def formatCandleTime_def iso_defs)

section \<open>The cursor\<close>

text \<open>
  Claim C1. A pass of the loop that receives a non-empty page, whose records
  \<^verbatim>\<open>mapCandle\<close> maps, ends normally in a state from which the loop goes on, and in that
  state \<^verbatim>\<open>startTime\<close>, which is the \<^verbatim>\<open>startTime\<close> parameter of the next request, is the
  \<^verbatim>\<open>closeTime\<close> of the last candle mapped from the page plus 1. That \<^verbatim>\<open>closeTime\<close> is
  position 6 of the last record of the page.
\<close>

theorem cursor_is_last_closeTime_plus_1:
  assumes "fetchMore s" and "up (calls s) (params e s) = Data page" and "page \<noteq> []"
    and "map_mapCandle page = Inr candles"
  shows "\<exists>s'. loop_body e up s = Normal s'
           \<and> while_fetchMore e up s = while_fetchMore e up s'
           \<and> startTime s' = closeTime (last candles) + 1
           \<and> p_startTime (params e s') = closeTime (last candles) + 1
           \<and> closeTime (last candles) = raw6 (last page)"
proof -
  let ?s' = "s\<lparr>allCandles := allCandles s @ candles,
              startTime := closeTime (last candles) + 1,
              fetchMore := (fetchMore s \<and> \<not> int (length candles) < LIMIT e),
              calls := Suc (calls s),
              trace := trace s @ [HttpGet (params e s), Delay (REQ_DELAY_MS e)]\<rparr>"
  have b: "loop_body e up s = Normal ?s'"
    using assms(2-4) by (rule loop_body_page)
  have w: "while_fetchMore e up s = while_fetchMore e up ?s'"
    using assms(1) b by (rule while_Normal)
  from map_mapCandle_Inr [OF assms(4)] assms(3)
  have l: "closeTime (last candles) = raw6 (last page)"
    by (metis last_map length_0_conv)
  have "startTime ?s' = closeTime (last candles) + 1"
    and "p_startTime (params e ?s') = closeTime (last candles) + 1"
    by (simp_all add: params_def)
  with b w l show ?thesis by blast
qed

theorem cursor_is_last_closeTime_plus_1_witness:
  "fetchMore (initial readme_getTime readme_env)
   \<and> synthetic_upstream (calls (initial readme_getTime readme_env))
        (params readme_env (initial readme_getTime readme_env)) = Data synthetic_page
   \<and> synthetic_page \<noteq> []
   \<and> map_mapCandle synthetic_page = Inr synthetic_candles
   \<and> (\<exists>s'. loop_body readme_env synthetic_upstream (initial readme_getTime readme_env) = Normal s'
         \<and> startTime s' = 1300
         \<and> p_startTime (params readme_env s') = 1300)"
proof -
  have h1: "fetchMore (initial readme_getTime readme_env)"
    by (simp add: initial_def)
  have h3: "synthetic_page \<noteq> []"
    by (simp add: synthetic_page_def)
  have c: "closeTime (last synthetic_candles) + 1 = 1300"
    by (simp add: synthetic_candles_def)
  from cursor_is_last_closeTime_plus_1
      [of "initial readme_getTime readme_env" synthetic_upstream readme_env
        synthetic_page synthetic_candles, OF h1 synthetic_first_response h3 synthetic_page_maps]
  have "\<exists>s'. loop_body readme_env synthetic_upstream (initial readme_getTime readme_env) = Normal s'
         \<and> startTime s' = 1300 \<and> p_startTime (params readme_env s') = 1300"
    unfolding c by blast
  with h1 synthetic_first_response h3 synthetic_page_maps show ?thesis
    by blast
qed

section \<open>The short page\<close>

text \<open>
  Claim C2. Under a valid configuration (\<^verbatim>\<open>LIMIT\<close> positive), take a pass of the loop
  that receives a page whose records carry time values at the positions 0 and 6. If the
  length of the page is strictly below \<^verbatim>\<open>LIMIT\<close>, the loop ends with this pass, after one
  request, and the page is mapped and appended: the accumulated candles are those of
  before followed by one candle for each record of the page, in order, with the seven
  fields of the record and the texts of its two times. If the length is not below
  \<^verbatim>\<open>LIMIT\<close>, the pass appends the same candles and the loop goes on, whatever the number
  of the candles accumulated before: the test compares the length of the page with
  \<^verbatim>\<open>LIMIT\<close>.
\<close>

theorem short_page_ends_the_loop:
  assumes "0 < LIMIT e" and "fetchMore s" and "up (calls s) (params e s) = Data page"
    and "\<forall>r\<in>set page. valid_time (raw0 r) \<and> valid_time (raw6 r)"
  shows "if int (length page) < LIMIT e
         then \<exists>s'. while_fetchMore e up s = Some s' \<and> calls s' = Suc (calls s)
                \<and> allCandles s' = allCandles s @ map (\<lambda>r. \<lparr>openTime = raw0 r, open' = raw1 r, high = raw2 r, low = raw3 r,
                   close' = raw4 r, volume = raw5 r, closeTime = raw6 r,
                   openISO = iso_string (raw0 r), closeISO = iso_string (raw6 r)\<rparr>) page
         else \<exists>s'. loop_body e up s = Normal s' \<and> fetchMore s'
                \<and> allCandles s' = allCandles s @ map (\<lambda>r. \<lparr>openTime = raw0 r, open' = raw1 r, high = raw2 r, low = raw3 r,
                   close' = raw4 r, volume = raw5 r, closeTime = raw6 r,
                   openISO = iso_string (raw0 r), closeISO = iso_string (raw6 r)\<rparr>) page
                \<and> while_fetchMore e up s = while_fetchMore e up s'"
proof (cases "page = []")
  case True
  let ?s' = "s\<lparr>calls := Suc (calls s), trace := trace s @ [HttpGet (params e s)]\<rparr>"
  from assms(3) True have "loop_body e up s = Break ?s'"
    by (simp add: loop_body_empty)
  with assms(2) have "while_fetchMore e up s = Some ?s'"
    by (rule while_Break)
  with True assms(1) show ?thesis by simp
next
  case ne: False
  let ?cs = "map (\<lambda>r. \<lparr>openTime = raw0 r, open' = raw1 r, high = raw2 r, low = raw3 r,
                   close' = raw4 r, volume = raw5 r, closeTime = raw6 r,
                   openISO = iso_string (raw0 r), closeISO = iso_string (raw6 r)\<rparr>) page"
  from assms(4) have m: "map_mapCandle page = Inr ?cs"
    by (rule map_mapCandle_valid)
  let ?s' = "s\<lparr>allCandles := allCandles s @ ?cs,
              startTime := closeTime (last ?cs) + 1,
              fetchMore := (fetchMore s \<and> \<not> int (length ?cs) < LIMIT e),
              calls := Suc (calls s),
              trace := trace s @ [HttpGet (params e s), Delay (REQ_DELAY_MS e)]\<rparr>"
  have b: "loop_body e up s = Normal ?s'"
    using assms(3) ne m by (rule loop_body_page)
  have w: "while_fetchMore e up s = while_fetchMore e up ?s'"
    using assms(2) b by (rule while_Normal)
  show ?thesis
  proof (cases "int (length page) < LIMIT e")
    case True
    then have "\<not> fetchMore ?s'" by simp
    then have "while_fetchMore e up ?s' = Some ?s'" by (rule while_stop)
    with w have "while_fetchMore e up s = Some ?s'" by simp
    moreover have "calls ?s' = Suc (calls s)" and "allCandles ?s' = allCandles s @ ?cs"
      by simp_all
    ultimately show ?thesis using True by (simp only: if_True) blast
  next
    case False
    with assms(2) have "fetchMore ?s'" by simp
    moreover have "allCandles ?s' = allCandles s @ ?cs" by simp
    ultimately show ?thesis using False b w by (simp only: if_False) blast
  qed
qed

theorem short_page_ends_the_loop_witness:
  "0 < LIMIT readme_env
   \<and> fetchMore (initial readme_getTime readme_env)
   \<and> two_pages_then (Data []) (calls (initial readme_getTime readme_env))
        (params readme_env (initial readme_getTime readme_env)) = Data page_a
   \<and> list_all (\<lambda>r. valid_time (raw0 r) \<and> valid_time (raw6 r)) page_a
   \<and> int (length page_a) < LIMIT readme_env
   \<and> (\<exists>s'. while_fetchMore readme_env (two_pages_then (Data []))
              (initial readme_getTime readme_env) = Some s'
         \<and> calls s' = 1 \<and> allCandles s' = candles_a)
   \<and> 0 < LIMIT two_env
   \<and> fetchMore (initial readme_getTime two_env)
   \<and> two_pages_then (Data []) (calls (initial readme_getTime two_env))
        (params two_env (initial readme_getTime two_env)) = Data page_a
   \<and> \<not> int (length page_a) < LIMIT two_env
   \<and> (\<exists>s'. loop_body two_env (two_pages_then (Data [])) (initial readme_getTime two_env)
              = Normal s'
         \<and> fetchMore s' \<and> allCandles s' = candles_a)"
proof -
  let ?up = "two_pages_then (Data [])"
  have v: "\<forall>r\<in>set page_a. valid_time (raw0 r) \<and> valid_time (raw6 r)"
    using page_a_valid by (simp add: list_all_iff)
  from page_a_maps map_mapCandle_map [of page_a candles_a]
  have c: "map (\<lambda>r. \<lparr>openTime = raw0 r, open' = raw1 r, high = raw2 r, low = raw3 r,
                   close' = raw4 r, volume = raw5 r, closeTime = raw6 r,
                   openISO = iso_string (raw0 r), closeISO = iso_string (raw6 r)\<rparr>) page_a = candles_a"
    by simp
  have h1: "0 < LIMIT readme_env"
    by (simp add: readme_env_def)
  have h2: "fetchMore (initial readme_getTime readme_env)"
    by (simp add: initial_def)
  have h3: "?up (calls (initial readme_getTime readme_env))
        (params readme_env (initial readme_getTime readme_env)) = Data page_a"
    by (simp add: two_pages_then_def initial_def)
  have short: "int (length page_a) < LIMIT readme_env"
    by (simp add: page_a_def readme_env_def)
  from short_page_ends_the_loop
      [of readme_env "initial readme_getTime readme_env" ?up page_a, OF h1 h2 h3 v] short
  have a: "\<exists>s'. while_fetchMore readme_env ?up (initial readme_getTime readme_env) = Some s'
         \<and> calls s' = 1 \<and> allCandles s' = candles_a"
    unfolding c by (simp add: initial_def)
  have k1: "0 < LIMIT two_env"
    by (simp add: two_env_def readme_env_def)
  have k2: "fetchMore (initial readme_getTime two_env)"
    by (simp add: initial_def)
  have k3: "?up (calls (initial readme_getTime two_env))
        (params two_env (initial readme_getTime two_env)) = Data page_a"
    by (simp add: two_pages_then_def initial_def)
  have full: "\<not> int (length page_a) < LIMIT two_env"
    by (simp add: page_a_def two_env_def readme_env_def)
  from short_page_ends_the_loop
      [of two_env "initial readme_getTime two_env" ?up page_a, OF k1 k2 k3 v] full
  have b: "\<exists>s'. loop_body two_env ?up (initial readme_getTime two_env) = Normal s'
         \<and> fetchMore s' \<and> allCandles s' = candles_a"
    unfolding c by (auto simp: initial_def)
  from h1 h2 h3 page_a_valid short a k1 k2 k3 full b show ?thesis
    by (intro conjI)
qed

section \<open>A request that fails\<close>

text \<open>
  Claim C3. Let the loop reach its test after \<open>N - 1\<close> passes, \<open>N \<ge> 1\<close>, in the state
  \<open>s\<close> with \<^verbatim>\<open>fetchMore\<close> still set, and let the request number \<open>N\<close> throw. Then each of
  the \<open>N - 1\<close> passes received a page, and the accumulated candles of \<open>s\<close> are one candle
  for each record of the pages 1 to \<open>N - 1\<close>, in order. The run ends: after the events
  before, it sends that one request, reports the error, sends no further request, and
  writes the file: the header line, then for each accumulated candle, in order, the row
  of its nine fields joined by commas, the rows joined by line feeds. For \<open>N = 1\<close> the
  events are the request, the report and the write of the header line alone.
\<close>

theorem failed_request_keeps_earlier_pages:
  assumes "1 \<le> N" and "passes e up (N - 1) (initial getTime e) = Some s" and "fetchMore s"
    and "up (N - 1) (params e s) = Throws"
  shows "calls s = N - 1
         \<and> (\<exists>pages. length pages = N - 1
               \<and> (\<forall>i<N - 1. \<exists>si. passes e up i (initial getTime e) = Some si
                                 \<and> up i (params e si) = Data (pages ! i))
               \<and> allCandles s = map (\<lambda>r. \<lparr>openTime = raw0 r, open' = raw1 r, high = raw2 r, low = raw3 r,
                   close' = raw4 r, volume = raw5 r, closeTime = raw6 r,
                   openISO = iso_string (raw0 r), closeISO = iso_string (raw6 r)\<rparr>) (concat pages))
         \<and> fetchCandles getTime e up =
             Some (trace s @ [HttpGet (params e s), ConsoleError,
               WriteFile Cwd (OUTPUT_FILE e)
                 (''openTime,open,high,low,close,volume,closeTime,openISO,closeISO'' @ [CHR 0x0A]
                  @ (case map (\<lambda>c. number_to_string (openTime c) @ '','' @ open' c @ '','' @ high c @ '',''
                   @ low c @ '','' @ close' c @ '','' @ volume c @ '',''
                   @ number_to_string (closeTime c) @ '','' @ openISO c @ '',''
                   @ closeISO c) (allCandles s) of
                 [] \<Rightarrow> []
               | x # xs \<Rightarrow> x @ concat (map ((#) (CHR 0x0A)) xs)))])
         \<and> (N = 1 \<longrightarrow>
               fetchCandles getTime e up =
                 Some [HttpGet (params e (initial getTime e)), ConsoleError,
                       WriteFile Cwd (OUTPUT_FILE e)
                         (''openTime,open,high,low,close,volume,closeTime,openISO,closeISO'' @ [CHR 0x0A])])"
proof -
  from passes_calls [OF assms(2)] have c: "calls s = N - 1"
    by (simp add: initial_def)
  from passes_pages [OF assms(2,3)] obtain pages where l: "length pages = N - 1"
    and each: "\<forall>i<N - 1. \<exists>si. passes e up i (initial getTime e) = Some si
                                 \<and> up (calls si) (params e si) = Data (pages ! i)"
    and acc: "allCandles s = allCandles (initial getTime e)
                @ map (\<lambda>r. \<lparr>openTime = raw0 r, open' = raw1 r, high = raw2 r, low = raw3 r,
                   close' = raw4 r, volume = raw5 r, closeTime = raw6 r,
                   openISO = iso_string (raw0 r), closeISO = iso_string (raw6 r)\<rparr>) (concat pages)"
    by blast
  have each': "\<forall>i<N - 1. \<exists>si. passes e up i (initial getTime e) = Some si
                                 \<and> up i (params e si) = Data (pages ! i)"
  proof (intro allI impI)
    fix i assume "i < N - 1"
    with each obtain si where p: "passes e up i (initial getTime e) = Some si"
      and r: "up (calls si) (params e si) = Data (pages ! i)"
      by blast
    from passes_calls [OF p] have "calls si = i" by (simp add: initial_def)
    with p r show "\<exists>si. passes e up i (initial getTime e) = Some si
                                 \<and> up i (params e si) = Data (pages ! i)"
      by auto
  qed
  from acc have acc': "allCandles s = map (\<lambda>r. \<lparr>openTime = raw0 r, open' = raw1 r, high = raw2 r, low = raw3 r,
                   close' = raw4 r, volume = raw5 r, closeTime = raw6 r,
                   openISO = iso_string (raw0 r), closeISO = iso_string (raw6 r)\<rparr>) (concat pages)"
    by (simp add: initial_def)
  let ?s' = "s\<lparr>fetchMore := False, calls := Suc (calls s),
               trace := trace s @ [HttpGet (params e s), ConsoleError]\<rparr>"
  from assms(4) c have "loop_body e up s = Normal ?s'"
    by (simp add: loop_body_Throws)
  with assms(3) have "while_fetchMore e up s = while_fetchMore e up ?s'"
    by (rule while_Normal)
  also have "\<dots> = Some ?s'"
    by (rule while_stop) simp
  finally have "while_fetchMore e up (initial getTime e) = Some ?s'"
    using while_passes [OF assms(2)] by simp
  then have f: "fetchCandles getTime e up =
             Some (trace s @ [HttpGet (params e s), ConsoleError,
               WriteFile Cwd (OUTPUT_FILE e)
                 (''openTime,open,high,low,close,volume,closeTime,openISO,closeISO'' @ [CHR 0x0A]
                  @ (case map (\<lambda>c. number_to_string (openTime c) @ '','' @ open' c @ '','' @ high c @ '',''
                   @ low c @ '','' @ close' c @ '','' @ volume c @ '',''
                   @ number_to_string (closeTime c) @ '','' @ openISO c @ '',''
                   @ closeISO c) (allCandles s) of
                 [] \<Rightarrow> []
               | x # xs \<Rightarrow> x @ concat (map ((#) (CHR 0x0A)) xs)))])"
    by (simp add: fetchCandles_def saveCandlesToFile_def file_content_rows)
  have one: "N = 1 \<longrightarrow>
               fetchCandles getTime e up =
                 Some [HttpGet (params e (initial getTime e)), ConsoleError,
                       WriteFile Cwd (OUTPUT_FILE e)
                         (''openTime,open,high,low,close,volume,closeTime,openISO,closeISO'' @ [CHR 0x0A])]"
  proof
    assume "N = 1"
    with assms(2) have "s = initial getTime e" by simp
    with f show "fetchCandles getTime e up =
                 Some [HttpGet (params e (initial getTime e)), ConsoleError,
                       WriteFile Cwd (OUTPUT_FILE e)
                         (''openTime,open,high,low,close,volume,closeTime,openISO,closeISO'' @ [CHR 0x0A])]"
      by (simp add: initial_def)
  qed
  from c l each' acc' f one show ?thesis by blast
qed

theorem failed_request_keeps_earlier_pages_witness:
  "(1::nat) \<le> 3
   \<and> passes two_env (two_pages_then Throws) (3 - 1) (initial readme_getTime two_env)
       = Some after_two_pages
   \<and> fetchMore after_two_pages
   \<and> two_pages_then Throws (3 - 1) (params two_env after_two_pages) = Throws
   \<and> allCandles after_two_pages = candles_a @ candles_b
   \<and> fetchCandles readme_getTime two_env (two_pages_then Throws) =
       Some [HttpGet \<lparr>p_symbol = ''BTCUSDT'', p_interval = ''1m'',
                       p_startTime = 1704067200000, p_limit = 2\<rparr>,
             Delay 150,
             HttpGet \<lparr>p_symbol = ''BTCUSDT'', p_interval = ''1m'', p_startTime = 1600,
                       p_limit = 2\<rparr>,
             Delay 150,
             HttpGet \<lparr>p_symbol = ''BTCUSDT'', p_interval = ''1m'', p_startTime = 2200,
                       p_limit = 2\<rparr>,
             ConsoleError,
             WriteFile Cwd ''BTCUSDT_1m.csv'' (header @ four_rows)]"
proof -
  have h1: "(1::nat) \<le> 3" by simp
  have h2: "passes two_env (two_pages_then Throws) (3 - 1) (initial readme_getTime two_env)
          = Some after_two_pages"
    using two_pages_passes [of Throws] by simp
  have h3: "fetchMore after_two_pages"
    by (simp add: after_two_pages_def)
  have h4: "two_pages_then Throws (3 - 1) (params two_env after_two_pages) = Throws"
    by (simp add: two_pages_then_def)
  have a: "allCandles after_two_pages = candles_a @ candles_b"
    by (simp add: after_two_pages_def)
  from failed_request_keeps_earlier_pages
    [of 3 two_env "two_pages_then Throws" readme_getTime after_two_pages, OF h1 h2 h3 h4]
  have "fetchCandles readme_getTime two_env (two_pages_then Throws) =
          Some (trace after_two_pages @ [HttpGet (params two_env after_two_pages), ConsoleError,
            WriteFile Cwd (OUTPUT_FILE two_env) (file_content (allCandles after_two_pages))])"
    unfolding file_content_rows [symmetric] by blast
  then have "fetchCandles readme_getTime two_env (two_pages_then Throws) =
       Some [HttpGet \<lparr>p_symbol = ''BTCUSDT'', p_interval = ''1m'',
                       p_startTime = 1704067200000, p_limit = 2\<rparr>,
             Delay 150,
             HttpGet \<lparr>p_symbol = ''BTCUSDT'', p_interval = ''1m'', p_startTime = 1600,
                       p_limit = 2\<rparr>,
             Delay 150,
             HttpGet \<lparr>p_symbol = ''BTCUSDT'', p_interval = ''1m'', p_startTime = 2200,
                       p_limit = 2\<rparr>,
             ConsoleError,
             WriteFile Cwd ''BTCUSDT_1m.csv'' (header @ four_rows)]"
    unfolding a four_rows_content
    by (simp add: after_two_pages_def params_def two_env_def readme_env_def)
  with h1 h2 h3 h4 a show ?thesis by (intro conjI)
qed

section \<open>An empty page\<close>

text \<open>
  Claim C4. Let the loop reach its test after \<open>k\<close> passes in the state \<open>s\<close> with
  \<^verbatim>\<open>fetchMore\<close> still set, and let the next request return an empty page. Then each of
  the \<open>k\<close> passes received a page, and the accumulated candles of \<open>s\<close> are one candle for
  each record of these pages, in order. The loop ends with the accumulated candles
  unchanged, and the run writes the file: the header line, then for each accumulated
  candle, in order, the row of its nine fields joined by commas, the rows joined by line
  feeds. With no pass before (\<open>k = 0\<close>) the events are the request and the write of the
  header line alone.
\<close>

theorem empty_page_ends_the_run:
  assumes "passes e up k (initial getTime e) = Some s" and "fetchMore s"
    and "up k (params e s) = Data []"
  shows "(\<exists>s'. while_fetchMore e up s = Some s' \<and> allCandles s' = allCandles s)
         \<and> (\<exists>pages. length pages = k
               \<and> (\<forall>i<k. \<exists>si. passes e up i (initial getTime e) = Some si
                             \<and> up i (params e si) = Data (pages ! i))
               \<and> allCandles s = map (\<lambda>r. \<lparr>openTime = raw0 r, open' = raw1 r, high = raw2 r, low = raw3 r,
                   close' = raw4 r, volume = raw5 r, closeTime = raw6 r,
                   openISO = iso_string (raw0 r), closeISO = iso_string (raw6 r)\<rparr>) (concat pages))
         \<and> fetchCandles getTime e up =
             Some (trace s @ [HttpGet (params e s),
               WriteFile Cwd (OUTPUT_FILE e)
                 (''openTime,open,high,low,close,volume,closeTime,openISO,closeISO'' @ [CHR 0x0A]
                  @ (case map (\<lambda>c. number_to_string (openTime c) @ '','' @ open' c @ '','' @ high c @ '',''
                   @ low c @ '','' @ close' c @ '','' @ volume c @ '',''
                   @ number_to_string (closeTime c) @ '','' @ openISO c @ '',''
                   @ closeISO c) (allCandles s) of
                 [] \<Rightarrow> []
               | x # xs \<Rightarrow> x @ concat (map ((#) (CHR 0x0A)) xs)))])
         \<and> (k = 0 \<longrightarrow>
               fetchCandles getTime e up =
                 Some [HttpGet (params e (initial getTime e)),
                       WriteFile Cwd (OUTPUT_FILE e)
                         (''openTime,open,high,low,close,volume,closeTime,openISO,closeISO'' @ [CHR 0x0A])])"
proof -
  from passes_calls [OF assms(1)] have c: "calls s = k"
    by (simp add: initial_def)
  from passes_pages [OF assms(1,2)] obtain pages where l: "length pages = k"
    and each: "\<forall>i<k. \<exists>si. passes e up i (initial getTime e) = Some si
                             \<and> up (calls si) (params e si) = Data (pages ! i)"
    and acc: "allCandles s = allCandles (initial getTime e)
                @ map (\<lambda>r. \<lparr>openTime = raw0 r, open' = raw1 r, high = raw2 r, low = raw3 r,
                   close' = raw4 r, volume = raw5 r, closeTime = raw6 r,
                   openISO = iso_string (raw0 r), closeISO = iso_string (raw6 r)\<rparr>) (concat pages)"
    by blast
  have each': "\<forall>i<k. \<exists>si. passes e up i (initial getTime e) = Some si
                             \<and> up i (params e si) = Data (pages ! i)"
  proof (intro allI impI)
    fix i assume "i < k"
    with each obtain si where p: "passes e up i (initial getTime e) = Some si"
      and r: "up (calls si) (params e si) = Data (pages ! i)"
      by blast
    from passes_calls [OF p] have "calls si = i" by (simp add: initial_def)
    with p r show "\<exists>si. passes e up i (initial getTime e) = Some si
                             \<and> up i (params e si) = Data (pages ! i)"
      by auto
  qed
  from acc have acc': "allCandles s = map (\<lambda>r. \<lparr>openTime = raw0 r, open' = raw1 r, high = raw2 r, low = raw3 r,
                   close' = raw4 r, volume = raw5 r, closeTime = raw6 r,
                   openISO = iso_string (raw0 r), closeISO = iso_string (raw6 r)\<rparr>) (concat pages)"
    by (simp add: initial_def)
  let ?s' = "s\<lparr>calls := Suc (calls s), trace := trace s @ [HttpGet (params e s)]\<rparr>"
  from assms(3) c have "loop_body e up s = Break ?s'"
    by (simp add: loop_body_empty)
  with assms(2) have w: "while_fetchMore e up s = Some ?s'"
    by (rule while_Break)
  then have w': "\<exists>s'. while_fetchMore e up s = Some s' \<and> allCandles s' = allCandles s"
    by simp
  from w while_passes [OF assms(1)] have "while_fetchMore e up (initial getTime e) = Some ?s'"
    by simp
  then have f: "fetchCandles getTime e up =
             Some (trace s @ [HttpGet (params e s),
               WriteFile Cwd (OUTPUT_FILE e)
                 (''openTime,open,high,low,close,volume,closeTime,openISO,closeISO'' @ [CHR 0x0A]
                  @ (case map (\<lambda>c. number_to_string (openTime c) @ '','' @ open' c @ '','' @ high c @ '',''
                   @ low c @ '','' @ close' c @ '','' @ volume c @ '',''
                   @ number_to_string (closeTime c) @ '','' @ openISO c @ '',''
                   @ closeISO c) (allCandles s) of
                 [] \<Rightarrow> []
               | x # xs \<Rightarrow> x @ concat (map ((#) (CHR 0x0A)) xs)))])"
    by (simp add: fetchCandles_def saveCandlesToFile_def file_content_rows)
  have zero: "k = 0 \<longrightarrow>
               fetchCandles getTime e up =
                 Some [HttpGet (params e (initial getTime e)),
                       WriteFile Cwd (OUTPUT_FILE e)
                         (''openTime,open,high,low,close,volume,closeTime,openISO,closeISO'' @ [CHR 0x0A])]"
  proof
    assume "k = 0"
    with assms(1) have "s = initial getTime e" by simp
    with f show "fetchCandles getTime e up =
                 Some [HttpGet (params e (initial getTime e)),
                       WriteFile Cwd (OUTPUT_FILE e)
                         (''openTime,open,high,low,close,volume,closeTime,openISO,closeISO'' @ [CHR 0x0A])]"
      by (simp add: initial_def)
  qed
  from w' l each' acc' f zero show ?thesis by blast
qed

theorem empty_page_ends_the_run_witness:
  "passes two_env (two_pages_then (Data [])) 2 (initial readme_getTime two_env)
       = Some after_two_pages
   \<and> fetchMore after_two_pages
   \<and> two_pages_then (Data []) 2 (params two_env after_two_pages) = Data []
   \<and> allCandles after_two_pages = candles_a @ candles_b
   \<and> fetchCandles readme_getTime two_env (two_pages_then (Data [])) =
       Some [HttpGet \<lparr>p_symbol = ''BTCUSDT'', p_interval = ''1m'',
                       p_startTime = 1704067200000, p_limit = 2\<rparr>,
             Delay 150,
             HttpGet \<lparr>p_symbol = ''BTCUSDT'', p_interval = ''1m'', p_startTime = 1600,
                       p_limit = 2\<rparr>,
             Delay 150,
             HttpGet \<lparr>p_symbol = ''BTCUSDT'', p_interval = ''1m'', p_startTime = 2200,
                       p_limit = 2\<rparr>,
             WriteFile Cwd ''BTCUSDT_1m.csv'' (header @ four_rows)]"
proof -
  have h1: "passes two_env (two_pages_then (Data [])) 2 (initial readme_getTime two_env)
          = Some after_two_pages"
    by (rule two_pages_passes)
  have h2: "fetchMore after_two_pages"
    by (simp add: after_two_pages_def)
  have h3: "two_pages_then (Data []) 2 (params two_env after_two_pages) = Data []"
    by (simp add: two_pages_then_def)
  have a: "allCandles after_two_pages = candles_a @ candles_b"
    by (simp add: after_two_pages_def)
  from empty_page_ends_the_run
    [of two_env "two_pages_then (Data [])" 2 readme_getTime after_two_pages, OF h1 h2 h3]
  have "fetchCandles readme_getTime two_env (two_pages_then (Data [])) =
          Some (trace after_two_pages @ [HttpGet (params two_env after_two_pages),
            WriteFile Cwd (OUTPUT_FILE two_env) (file_content (allCandles after_two_pages))])"
    unfolding file_content_rows [symmetric] by blast
  then have "fetchCandles readme_getTime two_env (two_pages_then (Data [])) =
       Some [HttpGet \<lparr>p_symbol = ''BTCUSDT'', p_interval = ''1m'',
                       p_startTime = 1704067200000, p_limit = 2\<rparr>,
             Delay 150,
             HttpGet \<lparr>p_symbol = ''BTCUSDT'', p_interval = ''1m'', p_startTime = 1600,
                       p_limit = 2\<rparr>,
             Delay 150,
             HttpGet \<lparr>p_symbol = ''BTCUSDT'', p_interval = ''1m'', p_startTime = 2200,
                       p_limit = 2\<rparr>,
             WriteFile Cwd ''BTCUSDT_1m.csv'' (header @ four_rows)]"
    unfolding a four_rows_content
    by (simp add: after_two_pages_def params_def two_env_def readme_env_def)
  with h1 h2 h3 a show ?thesis by (intro conjI)
qed

section \<open>The round trip of one synthetic page\<close>



section \<open>The order of the accumulated candles\<close>

text \<open>
  Claim C6. Let the loop end in the state \<open>s\<close>, and let the upstream have honoured the
  requests of the run: every page it returned is strictly increasing in the open time,
  and every record of it opens no earlier than the requested \<^verbatim>\<open>startTime\<close> and closes no
  earlier than it opens. Then the open times of the accumulated candles increase
  strictly; in particular no open time occurs twice, within a page or in two pages.
\<close>

theorem accumulated_candles_strictly_increasing:
  assumes "while_fetchMore e up (initial getTime e) = Some s"
    and "honoured up (trace s)"
  shows "sorted_wrt (<) (map openTime (allCandles s)) \<and> distinct (map openTime (allCandles s))"
proof -
  let ?J = "\<lambda>s. calls s = length (requests (trace s))
                \<and> (honoured up (trace s) \<longrightarrow> ordered_below_cursor s)"
  have "?J (initial getTime e)"
    by (simp add: ordered_below_cursor_def initial_def)
  with assms(1) have "?J s"
    by (rule while_invariant) (rule honoured_step)
  with assms(2) have "sorted_wrt (<) (map openTime (allCandles s))"
    by (simp add: ordered_below_cursor_def)
  then show ?thesis
    by (simp add: strict_sorted_iff)
qed

theorem accumulated_candles_strictly_increasing_witness:
  "\<exists>s. while_fetchMore one_env honouring_upstream (initial readme_getTime one_env) = Some s
       \<and> honoured honouring_upstream (trace s)
       \<and> map openTime (allCandles s) = [1704067200000, 1704067200300]
       \<and> sorted_wrt (<) (map openTime (allCandles s))
       \<and> distinct (map openTime (allCandles s))"
proof -
  from honouring_run obtain s
    where w: "while_fetchMore one_env honouring_upstream (initial readme_getTime one_env) = Some s"
      and m: "map openTime (allCandles s) = [1704067200000, 1704067200300]"
    by auto
  have h: "honoured honouring_upstream (trace s)"
    by (auto simp: honoured_def honouring_upstream_def)
  from accumulated_candles_strictly_increasing
    [of one_env honouring_upstream readme_getTime s, OF w h]
  have o: "sorted_wrt (<) (map openTime (allCandles s))
           \<and> distinct (map openTime (allCandles s))" .
  from w h m o show ?thesis
    by (intro exI [of _ s]) simp
qed

section \<open>Validation before any request\<close>

text \<open>
  Claim C7. Let \<^verbatim>\<open>START_DATE\<close> be unset or fail the date-time test of the schema, or let
  \<^verbatim>\<open>LIMIT\<close> or \<^verbatim>\<open>REQ_DELAY_MS\<close> coerce to a number that is no positive integer, or let
  \<^verbatim>\<open>SYMBOL\<close>, \<^verbatim>\<open>INTERVAL\<close> or \<^verbatim>\<open>OUTPUT_FILE\<close> be unset or empty. Then the process ends
  with the exit status 1 after two lines on the error stream, and these are all its
  events: no request is sent and no file is written.
\<close>

theorem invalid_configuration_exits_before_any_request:
  assumes "(\<forall>s. env_START_DATE pe = Some s \<longrightarrow> \<not> datetime s)
         \<or> (\<nexists>n. 0 < n \<and> env_LIMIT pe = Finite (of_int n))
         \<or> (\<nexists>n. 0 < n \<and> env_REQ_DELAY_MS pe = Finite (of_int n))
         \<or> env_SYMBOL pe = None \<or> env_SYMBOL pe = Some []
         \<or> env_INTERVAL pe = None \<or> env_INTERVAL pe = Some []
         \<or> env_OUTPUT_FILE pe = None \<or> env_OUTPUT_FILE pe = Some []"
  shows "process datetime getTime up pe =
           Some \<lparr>exit_status = 1, events = [ConsoleError, ConsoleError]\<rparr>"
proof -
  have n: "z_coerce_number_int_positive v = None
           \<longleftrightarrow> (\<nexists>n. 0 < n \<and> v = Finite (of_int n))" for v
    using z_coerce_number_int_positive_Some [of v]
    by (cases "z_coerce_number_int_positive v") auto
  from assms have "envSchema_safeParse datetime pe = None"
    unfolding safeParse_None z_string_min1_None z_string_datetime_None n by blast
  then show ?thesis by (rule process_invalid)
qed

theorem invalid_configuration_exits_before_any_request_witness:
  "((\<forall>s. env_START_DATE bad_date_env = Some s \<longrightarrow> \<not> utc_datetime s)
    \<or> (\<nexists>n. 0 < n \<and> env_LIMIT bad_date_env = Finite (of_int n))
    \<or> (\<nexists>n. 0 < n \<and> env_REQ_DELAY_MS bad_date_env = Finite (of_int n))
    \<or> env_SYMBOL bad_date_env = None \<or> env_SYMBOL bad_date_env = Some []
    \<or> env_INTERVAL bad_date_env = None \<or> env_INTERVAL bad_date_env = Some []
    \<or> env_OUTPUT_FILE bad_date_env = None \<or> env_OUTPUT_FILE bad_date_env = Some [])
   \<and> process utc_datetime readme_getTime synthetic_upstream bad_date_env =
       Some \<lparr>exit_status = 1, events = [ConsoleError, ConsoleError]\<rparr>"
proof -
  have "\<forall>s. env_START_DATE bad_date_env = Some s \<longrightarrow> \<not> utc_datetime s"
    by (simp add: bad_date_env_def utc_datetime_def)
  then have h: "(\<forall>s. env_START_DATE bad_date_env = Some s \<longrightarrow> \<not> utc_datetime s)
    \<or> (\<nexists>n. 0 < n \<and> env_LIMIT bad_date_env = Finite (of_int n))
    \<or> (\<nexists>n. 0 < n \<and> env_REQ_DELAY_MS bad_date_env = Finite (of_int n))
    \<or> env_SYMBOL bad_date_env = None \<or> env_SYMBOL bad_date_env = Some []
    \<or> env_INTERVAL bad_date_env = None \<or> env_INTERVAL bad_date_env = Some []
    \<or> env_OUTPUT_FILE bad_date_env = None \<or> env_OUTPUT_FILE bad_date_env = Some []"
    by blast
  from invalid_configuration_exits_before_any_request
    [of bad_date_env utc_datetime readme_getTime synthetic_upstream, OF h] h
  show ?thesis by blast
qed

section \<open>The delay between requests\<close>

text \<open>
  Claim C8, as the code has it. A pass awaits the delay exactly when it received a
  non-empty page and \<^verbatim>\<open>mapCandle\<close> mapped it: then its events are the request and the
  delay. Otherwise its events are the request alone (empty page) or the request and the
  error report (the call threw, or the mapping did). A non-empty mapped page that is
  shorter than \<^verbatim>\<open>LIMIT\<close> clears \<^verbatim>\<open>fetchMore\<close>, so the pass that ends the loop by a short
  page awaits the delay all the same.
\<close>

theorem delay_after_every_mapped_page:
  "(if \<exists>p cs. up (calls s) (params e s) = Data p \<and> p \<noteq> [] \<and> map_mapCandle p = Inr cs
    then trace (state_of (loop_body e up s)) =
           trace s @ [HttpGet (params e s), Delay (REQ_DELAY_MS e)]
    else trace (state_of (loop_body e up s)) = trace s @ [HttpGet (params e s)]
         \<or> trace (state_of (loop_body e up s)) = trace s @ [HttpGet (params e s), ConsoleError])
   \<and> (\<forall>p cs. up (calls s) (params e s) = Data p \<and> p \<noteq> [] \<and> map_mapCandle p = Inr cs
         \<and> int (length p) < LIMIT e \<longrightarrow> \<not> fetchMore (state_of (loop_body e up s)))"
proof (cases "up (calls s) (params e s)")
  case Throws
  from loop_body_Throws [of up s e, OF Throws] Throws show ?thesis by simp
next
  case (Data p)
  show ?thesis
  proof (cases "p = []")
    case True
    with Data have "up (calls s) (params e s) = Data []" by simp
    from loop_body_empty [of up s e, OF this] Data True show ?thesis by simp
  next
    case ne: False
    show ?thesis
    proof (cases "map_mapCandle p")
      case (Inl err)
      from loop_body_unmapped [of up s e p err, OF Data ne Inl] Data ne Inl show ?thesis by simp
    next
      case (Inr cs)
      from map_mapCandle_Inr [OF Inr] have "length cs = length p" by simp
      with loop_body_page [of up s e p cs, OF Data ne Inr] Data ne Inr show ?thesis by simp
    qed
  qed
qed

theorem delay_after_every_mapped_page_witness:
  "(\<exists>p cs. synthetic_upstream (calls (initial readme_getTime readme_env))
              (params readme_env (initial readme_getTime readme_env)) = Data p
           \<and> p \<noteq> [] \<and> map_mapCandle p = Inr cs \<and> int (length p) < LIMIT readme_env)
   \<and> trace (state_of (loop_body readme_env synthetic_upstream
                        (initial readme_getTime readme_env))) =
       [HttpGet \<lparr>p_symbol = ''BTCUSDT'', p_interval = ''1m'', p_startTime = 1704067200000,
                 p_limit = 500\<rparr>,
        Delay 150]
   \<and> \<not> fetchMore (state_of (loop_body readme_env synthetic_upstream
                               (initial readme_getTime readme_env)))"
proof -
  let ?s = "initial readme_getTime readme_env"
  have short: "int (length synthetic_page) < LIMIT readme_env"
    by (simp add: synthetic_page_def readme_env_def)
  have ex: "\<exists>p cs. synthetic_upstream (calls ?s) (params readme_env ?s) = Data p
           \<and> p \<noteq> [] \<and> map_mapCandle p = Inr cs"
    using synthetic_first_response synthetic_page_not_empty synthetic_page_maps by blast
  have ex': "\<exists>p cs. synthetic_upstream (calls ?s) (params readme_env ?s) = Data p
           \<and> p \<noteq> [] \<and> map_mapCandle p = Inr cs \<and> int (length p) < LIMIT readme_env"
    using synthetic_first_response synthetic_page_not_empty synthetic_page_maps short by blast
  note t = delay_after_every_mapped_page [of synthetic_upstream ?s readme_env]
  from t ex have "trace (state_of (loop_body readme_env synthetic_upstream ?s)) =
           trace ?s @ [HttpGet (params readme_env ?s), Delay (REQ_DELAY_MS readme_env)]"
    by (simp only: if_True)
  then have a: "trace (state_of (loop_body readme_env synthetic_upstream ?s)) =
       [HttpGet \<lparr>p_symbol = ''BTCUSDT'', p_interval = ''1m'', p_startTime = 1704067200000,
                 p_limit = 500\<rparr>,
        Delay 150]"
    by (simp add: initial_def params_def readme_env_def readme_getTime_def)
  from t ex' have b: "\<not> fetchMore (state_of (loop_body readme_env synthetic_upstream ?s))"
    by blast
  from ex' a b show ?thesis by blast
qed

text \<open>
  Claim C8 fails on the pass that ends the loop by a short page: under the README
  configuration the first pass receives the synthetic page of one record, which is
  shorter than 500. The pass ends normally with \<^verbatim>\<open>fetchMore\<close> cleared, the loop ends in
  that state, and the delay of 150 milliseconds is the last event of the pass.
\<close>

theorem short_page_pass_awaits_delay:
  "fetchMore (initial readme_getTime readme_env)
   \<and> loop_body readme_env synthetic_upstream (initial readme_getTime readme_env)
       = Normal after_short_page
   \<and> while_fetchMore readme_env synthetic_upstream (initial readme_getTime readme_env)
       = Some after_short_page
   \<and> \<not> fetchMore after_short_page
   \<and> trace after_short_page =
       [HttpGet \<lparr>p_symbol = ''BTCUSDT'', p_interval = ''1m'', p_startTime = 1704067200000,
                 p_limit = 500\<rparr>,
        Delay 150]"
proof -
  have fm: "fetchMore (initial readme_getTime readme_env)"
    by (simp add: initial_def)
  have nf: "\<not> fetchMore after_short_page"
    by (simp add: after_short_page_def)
  have "while_fetchMore readme_env synthetic_upstream (initial readme_getTime readme_env)
          = while_fetchMore readme_env synthetic_upstream after_short_page"
    using fm readme_first_pass by (rule while_Normal)
  also have "\<dots> = Some after_short_page"
    using nf by (rule while_stop)
  finally show ?thesis
    using fm nf readme_first_pass by (simp add: after_short_page_def)
qed

section \<open>A delay of zero\<close>

text \<open>
  Claim C9, as the code has it. A configuration whose \<^verbatim>\<open>REQ_DELAY_MS\<close> is 0 is not
  valid: the schema asks for a positive integer, so the validation fails and the process
  ends with the exit status 1 before any request.
\<close>

theorem zero_delay_is_rejected:
  assumes "env_REQ_DELAY_MS pe = Finite 0"
  shows "envSchema_safeParse datetime pe = None
         \<and> process datetime getTime up pe =
             Some \<lparr>exit_status = 1, events = [ConsoleError, ConsoleError]\<rparr>"
proof -
  from assms have "z_coerce_number_int_positive (env_REQ_DELAY_MS pe) = None"
    by (simp add: z_coerce_number_int_positive_def)
  then have "envSchema_safeParse datetime pe = None"
    unfolding safeParse_None by blast
  with process_invalid [OF this] show ?thesis by simp
qed

theorem zero_delay_is_rejected_witness:
  "env_REQ_DELAY_MS zero_delay_env = Finite 0
   \<and> envSchema_safeParse utc_datetime zero_delay_env = None
   \<and> process utc_datetime readme_getTime synthetic_upstream zero_delay_env =
       Some \<lparr>exit_status = 1, events = [ConsoleError, ConsoleError]\<rparr>"
proof -
  have h: "env_REQ_DELAY_MS zero_delay_env = Finite 0"
    by (simp add: zero_delay_env_def)
  from zero_delay_is_rejected [of zero_delay_env utc_datetime readme_getTime synthetic_upstream,
      OF h] h
  show ?thesis by simp
qed

text \<open>
  Claim C9 fails on the environment of the README with \<^verbatim>\<open>REQ_DELAY_MS\<close> set to 0: the
  validation fails and the process exits with status 1, while the same environment with
  the delay 150 passes the validation.
\<close>

theorem zero_delay_fails_validation:
  "envSchema_safeParse utc_datetime zero_delay_env = None
   \<and> envSchema_safeParse utc_datetime (zero_delay_env\<lparr>env_REQ_DELAY_MS := Finite 150\<rparr>)
       = Some readme_env
   \<and> process utc_datetime readme_getTime synthetic_upstream zero_delay_env =
       Some \<lparr>exit_status = 1, events = [ConsoleError, ConsoleError]\<rparr>"
  by (simp add: envSchema_safeParse_def zero_delay_env_def z_string_min1_def
      z_coerce_number_int_positive_def z_string_datetime_def utc_datetime_readme readme_env_def
      process_def)

section \<open>The standalone script and the service\<close>




end
